theory Spec2Isabelle
  imports Complex_Main "HOL-Library.Word" "HOL-Library.Log_Nat"
begin

section \<open>JavaScript numbers\<close>

text \<open>
  The transform of \<^verbatim>\<open>src/components/ImageProcessor.tsx\<close> computes on JavaScript numbers:
  IEEE 754 binary64 values. A finite one is modelled by the real it denotes, next to the
  two infinities and the single not-a-number value. Every arithmetic operation computes
  the exact real result and rounds it to the nearest double, a tie going to the even
  significand, and to an infinity when the rounded magnitude reaches \<open>2 ^ 1024\<close>
  (\<open>roundDouble\<close>). So the one division of the program (the contrast factor, whose
  denominator vanishes when \<open>contrast * 255\<close> rounds to 259), every overflow, and every
  read past the end of the buffer (\<^verbatim>\<open>undefined\<close>, which arithmetic turns into
  not-a-number) have the value the program gives them.

  The sign of zero is not modelled. It could only show in a division by the negative
  zero, and the only divisor of the program, \<open>255 * (259 - contrast * 255)\<close>, is zero only
  as the difference of two equal numbers, which is the positive zero.
\<close>

datatype jsnum = Num real | PInf | NInf | NaN

text \<open>The infinity of the given sign.\<close>

definition signedInf :: "bool \<Rightarrow> jsnum" where
  "signedInf positive = (if positive then PInf else NInf)"

text \<open>
  The integer nearest to a non-negative real, a tie going to the even one: with \<open>f\<close> the
  floor, \<open>f\<close> below \<open>f + 0.5\<close>, \<open>f + 1\<close> above it, the even one of the two at \<open>f + 0.5\<close>.
\<close>

definition roundTiesToEven :: "real \<Rightarrow> int" where
  "roundTiesToEven clamped =
     (let f = \<lfloor>clamped\<rfloor> in
      if clamped < of_int f + 1 / 2 then f
      else if clamped > of_int f + 1 / 2 then f + 1
      else if even f then f else f + 1)"

text \<open>The binary exponent of a positive real \<open>a\<close>: the \<open>e\<close> with \<open>2 ^ e \<le> a < 2 ^ (e + 1)\<close>.\<close>

definition exponent :: "real \<Rightarrow> int" where
  "exponent a = (if 1 \<le> a then bitlen \<lfloor>a\<rfloor> - 1 else - bitlen (\<lceil>1 / a\<rceil> - 1))"

text \<open>
  Rounding a real to binary64, to nearest, ties to even. The significand has 53 bits, so
  a number of binary exponent \<open>e\<close> is rounded to a multiple of \<open>q = 2 ^ (e - 52)\<close>
  (\<open>quantize\<close>); the exponent counts as no smaller than \<open>- 1022\<close> (below that the spacing
  stays \<open>2 ^ - 1074\<close>, the subnormal numbers; \<open>quantum\<close>); a rounded magnitude of
  \<open>2 ^ 1024\<close> or more is an infinity.
\<close>

definition quantize :: "real \<Rightarrow> real \<Rightarrow> jsnum" where
  "quantize x q =
     (let m = real_of_int (roundTiesToEven (\<bar>x\<bar> / q)) * q
      in if 2 powi 1024 \<le> m then signedInf (0 < x) else Num (sgn x * m))"

definition quantum :: "real \<Rightarrow> real" where
  "quantum x = 2 powi (max (exponent \<bar>x\<bar>) (- 1022) - 52)"

definition roundDouble :: "real \<Rightarrow> jsnum" where
  "roundDouble x = (if x = 0 then Num 0 else quantize x (quantum x))"

text \<open>A decimal literal of the source denotes the double nearest to it.\<close>

definition lit :: "real \<Rightarrow> jsnum" where
  "lit x = roundDouble x"

instantiation jsnum :: uminus
begin

fun uminus_jsnum :: "jsnum \<Rightarrow> jsnum" where
  "uminus_jsnum (Num x) = Num (- x)"
| "uminus_jsnum PInf = NInf"
| "uminus_jsnum NInf = PInf"
| "uminus_jsnum NaN = NaN"

instance ..

end

instantiation jsnum :: plus
begin

fun plus_jsnum :: "jsnum \<Rightarrow> jsnum \<Rightarrow> jsnum" where
  "plus_jsnum (Num x) (Num y) = roundDouble (x + y)"
| "plus_jsnum NaN _ = NaN"
| "plus_jsnum _ NaN = NaN"
| "plus_jsnum PInf NInf = NaN"
| "plus_jsnum NInf PInf = NaN"
| "plus_jsnum PInf _ = PInf"
| "plus_jsnum _ PInf = PInf"
| "plus_jsnum NInf _ = NInf"
| "plus_jsnum _ NInf = NInf"

instance ..

end

instantiation jsnum :: minus
begin

fun minus_jsnum :: "jsnum \<Rightarrow> jsnum \<Rightarrow> jsnum" where
  "minus_jsnum (Num x) (Num y) = roundDouble (x - y)"
| "minus_jsnum NaN _ = NaN"
| "minus_jsnum _ NaN = NaN"
| "minus_jsnum PInf PInf = NaN"
| "minus_jsnum NInf NInf = NaN"
| "minus_jsnum PInf _ = PInf"
| "minus_jsnum _ NInf = PInf"
| "minus_jsnum NInf _ = NInf"
| "minus_jsnum _ PInf = NInf"

instance ..

end

instantiation jsnum :: times
begin

fun times_jsnum :: "jsnum \<Rightarrow> jsnum \<Rightarrow> jsnum" where
  "times_jsnum (Num x) (Num y) = roundDouble (x * y)"
| "times_jsnum NaN _ = NaN"
| "times_jsnum _ NaN = NaN"
| "times_jsnum (Num x) PInf = (if x = 0 then NaN else signedInf (0 < x))"
| "times_jsnum (Num x) NInf = (if x = 0 then NaN else signedInf (x < 0))"
| "times_jsnum PInf (Num y) = (if y = 0 then NaN else signedInf (0 < y))"
| "times_jsnum NInf (Num y) = (if y = 0 then NaN else signedInf (y < 0))"
| "times_jsnum PInf PInf = PInf"
| "times_jsnum NInf NInf = PInf"
| "times_jsnum PInf NInf = NInf"
| "times_jsnum NInf PInf = NInf"

instance ..

end

instantiation jsnum :: inverse
begin

fun divide_jsnum :: "jsnum \<Rightarrow> jsnum \<Rightarrow> jsnum" where
  "divide_jsnum (Num x) (Num y) =
     (if y = 0 then (if x = 0 then NaN else signedInf (0 < x)) else roundDouble (x / y))"
| "divide_jsnum NaN _ = NaN"
| "divide_jsnum _ NaN = NaN"
| "divide_jsnum (Num x) PInf = Num 0"
| "divide_jsnum (Num x) NInf = Num 0"
| "divide_jsnum PInf (Num y) = signedInf (0 \<le> y)"
| "divide_jsnum NInf (Num y) = signedInf (y < 0)"
| "divide_jsnum PInf PInf = NaN"
| "divide_jsnum NInf NInf = NaN"
| "divide_jsnum PInf NInf = NaN"
| "divide_jsnum NInf PInf = NaN"

fun inverse_jsnum :: "jsnum \<Rightarrow> jsnum" where
  "inverse_jsnum (Num y) = (if y = 0 then PInf else roundDouble (1 / y))"
| "inverse_jsnum PInf = Num 0"
| "inverse_jsnum NInf = Num 0"
| "inverse_jsnum NaN = NaN"

instance ..

end

text \<open>\<^verbatim>\<open>Math.max\<close> and \<^verbatim>\<open>Math.min\<close> of two arguments: not-a-number if either is.\<close>

fun Math_max :: "jsnum \<Rightarrow> jsnum \<Rightarrow> jsnum" where
  "Math_max (Num x) (Num y) = Num (max x y)"
| "Math_max NaN _ = NaN"
| "Math_max _ NaN = NaN"
| "Math_max PInf _ = PInf"
| "Math_max _ PInf = PInf"
| "Math_max NInf v = v"
| "Math_max v NInf = v"

fun Math_min :: "jsnum \<Rightarrow> jsnum \<Rightarrow> jsnum" where
  "Math_min (Num x) (Num y) = Num (min x y)"
| "Math_min NaN _ = NaN"
| "Math_min _ NaN = NaN"
| "Math_min NInf _ = NInf"
| "Math_min _ NInf = NInf"
| "Math_min PInf v = v"
| "Math_min v PInf = v"

text \<open>A number that is finite: neither an infinity nor not-a-number.\<close>

fun isFinite :: "jsnum \<Rightarrow> bool" where
  "isFinite (Num x) = True"
| "isFinite _ = False"

section \<open>The pixel buffer\<close>

text \<open>
  \<^verbatim>\<open>imageData.data\<close> is a \<^verbatim>\<open>Uint8ClampedArray\<close>: a sequence of bytes of fixed length.
  The type is the platform's, not declared in the repository; its element access is
  modelled as ECMAScript defines it. Reading an element gives its value as a number,
  reading past the end gives \<^verbatim>\<open>undefined\<close>, which the subtraction \<^verbatim>\<open>r - 128\<close> converts to
  not-a-number. Storing a number converts it by the operation ToUint8Clamp (not-a-number
  becomes 0; any other value is clamped between 0 and 255, and then: with \<open>f\<close> its floor,
  the result is \<open>f\<close> below \<open>f + 0.5\<close>, \<open>f + 1\<close> above it, and the even one of the two at
  \<open>f + 0.5\<close>); storing past the end does nothing.
\<close>

type_synonym u8 = "8 word"

fun ToUint8Clamp :: "jsnum \<Rightarrow> u8" where
  "ToUint8Clamp NaN = 0"
| "ToUint8Clamp PInf = 255"
| "ToUint8Clamp NInf = 0"
| "ToUint8Clamp (Num x) = word_of_int (roundTiesToEven (min 255 (max 0 x)))"

definition dataGet :: "u8 list \<Rightarrow> nat \<Rightarrow> jsnum" where
  "dataGet data i = (if i < length data then Num (real (unat (data ! i))) else NaN)"

definition dataSet :: "u8 list \<Rightarrow> nat \<Rightarrow> jsnum \<Rightarrow> u8 list" where
  "dataSet data i v = (if i < length data then data[i := ToUint8Clamp v] else data)"

section \<open>Presets\<close>

record FilterPreset =
  name :: string
  description :: string
  brightness :: jsnum
  contrast :: jsnum
  warmth :: jsnum
  saturation :: jsnum

definition filterPresets :: "FilterPreset list" where
  "filterPresets =
    [\<lparr>name = ''Auto Enhance'',
      description = ''Balanced boost for clarity and detail.'',
      brightness = lit 1.05, contrast = lit 1.1, warmth = lit 0.02, saturation = lit 1.08\<rparr>,
     \<lparr>name = ''Golden Hour'',
      description = ''Warm cinematic tones with soft highlights.'',
      brightness = lit 1.08, contrast = lit 1.05, warmth = lit 0.08, saturation = lit 1.12\<rparr>,
     \<lparr>name = ''Cool Studio'',
      description = ''Clean, modern tones with crisp shadows.'',
      brightness = lit 1.02, contrast = lit 1.12, warmth = - lit 0.06, saturation = lit 1.04\<rparr>,
     \<lparr>name = ''Vintage Film'',
      description = ''Muted palette with gentle contrast.'',
      brightness = lit 1.03, contrast = lit 0.92, warmth = lit 0.03, saturation = lit 0.9\<rparr>]"

text \<open>
  \<^verbatim>\<open>filterPresets.find((preset) => preset.name === presetName) ?? filterPresets[0]\<close>:
  the first preset of that name, and the first preset of the catalog when
  \<^verbatim>\<open>find\<close> returns \<^verbatim>\<open>undefined\<close>.
\<close>

definition currentPreset :: "string \<Rightarrow> FilterPreset" where
  "currentPreset presetName =
     (case find (\<lambda>preset. name preset = presetName) filterPresets of
        Some preset \<Rightarrow> preset
      | None \<Rightarrow> filterPresets ! 0)"

section \<open>The transform\<close>

definition clamp :: "jsnum \<Rightarrow> jsnum" where
  "clamp v = Math_min (Num 255) (Math_max (Num 0) v)"

definition adjustSaturation :: "jsnum \<Rightarrow> jsnum \<Rightarrow> jsnum \<Rightarrow> jsnum \<Rightarrow> jsnum \<times> jsnum \<times> jsnum" where
  "adjustSaturation r g b saturation' =
     (let gray = lit 0.3 * r + lit 0.59 * g + lit 0.11 * b in
      (clamp (gray + (r - gray) * saturation'),
       clamp (gray + (g - gray) * saturation'),
       clamp (gray + (b - gray) * saturation')))"

text \<open>
  Line 63 of the source: the contrast factor, computed once per call. (The local constants
  that line 61 takes from the preset carry a prime here, the plain names being the
  fields of the record.)
\<close>

definition factor :: "jsnum \<Rightarrow> jsnum" where
  "factor contrast' =
     (Num 259 * (contrast' * Num 255 + Num 255)) / (Num 255 * (Num 259 - contrast' * Num 255))"

text \<open>Lines 70 to 72: the contrast remap of one channel.\<close>

definition contrastRemap :: "jsnum \<Rightarrow> jsnum \<Rightarrow> jsnum" where
  "contrastRemap fac v = fac * (v - Num 128) + Num 128"

text \<open>Lines 74 to 76: the three in-place multiplications.\<close>

definition scaleChannels ::
    "jsnum \<Rightarrow> jsnum \<Rightarrow> jsnum \<times> jsnum \<times> jsnum \<Rightarrow> jsnum \<times> jsnum \<times> jsnum" where
  "scaleChannels brightness' warmth' adjusted =
     (case adjusted of (adjustedR, adjustedG, adjustedB) \<Rightarrow>
        (adjustedR * (brightness' + warmth'),
         adjustedG * brightness',
         adjustedB * (brightness' - warmth')))"

text \<open>
  The loop of lines 65 to 88, from index \<open>i\<close> on: one iteration reads three bytes,
  computes, and stores three bytes into the same buffer.
\<close>

function applyLoop :: "jsnum \<Rightarrow> FilterPreset \<Rightarrow> nat \<Rightarrow> u8 list \<Rightarrow> u8 list" where
  "applyLoop fac preset i data =
     (if i < length data then
        (let r = dataGet data i;
             g = dataGet data (i + 1);
             b = dataGet data (i + 2);
             (adjustedR, adjustedG, adjustedB) =
               scaleChannels (brightness preset) (warmth preset)
                 (contrastRemap fac r, contrastRemap fac g, contrastRemap fac b);
             (satR, satG, satB) =
               adjustSaturation adjustedR adjustedG adjustedB (saturation preset);
             data1 = dataSet data i satR;
             data2 = dataSet data1 (i + 1) satG;
             data3 = dataSet data2 (i + 2) satB
         in applyLoop fac preset (i + 4) data3)
      else data)"
  by pat_completeness auto
termination
  by (relation "measure (\<lambda>(fac, preset, i, data). length data - i)")
     (auto simp: dataSet_def)

definition applyFilters :: "u8 list \<Rightarrow> FilterPreset \<Rightarrow> u8 list" where
  "applyFilters data preset = applyLoop (factor (contrast preset)) preset 0 data"

section \<open>One iteration of the loop\<close>

text \<open>
  The three numbers that an iteration reads at \<open>i\<close>, \<open>i + 1\<close>, \<open>i + 2\<close>, the three numbers
  it computes from them (lines 70 to 83), and the three stores of lines 85 to 87. The loop
  above is these three, repeated; \<open>applyLoop_step\<close> below says so.
\<close>

definition pixelAt :: "u8 list \<Rightarrow> nat \<Rightarrow> jsnum \<times> jsnum \<times> jsnum" where
  "pixelAt data i = (dataGet data i, dataGet data (i + 1), dataGet data (i + 2))"

definition filterPixel ::
    "jsnum \<Rightarrow> FilterPreset \<Rightarrow> jsnum \<times> jsnum \<times> jsnum \<Rightarrow> jsnum \<times> jsnum \<times> jsnum" where
  "filterPixel fac preset rgb =
     (case rgb of (r, g, b) \<Rightarrow>
        (case scaleChannels (brightness preset) (warmth preset)
                (contrastRemap fac r, contrastRemap fac g, contrastRemap fac b) of
           (adjustedR, adjustedG, adjustedB) \<Rightarrow>
             adjustSaturation adjustedR adjustedG adjustedB (saturation preset)))"

definition storePixel :: "u8 list \<Rightarrow> nat \<Rightarrow> jsnum \<times> jsnum \<times> jsnum \<Rightarrow> u8 list" where
  "storePixel data i sat =
     (case sat of (satR, satG, satB) \<Rightarrow>
        dataSet (dataSet (dataSet data i satR) (i + 1) satG) (i + 2) satB)"

text \<open>Channel 0, 1 or 2 of a triple: red, green, blue.\<close>

fun channel :: "nat \<Rightarrow> jsnum \<times> jsnum \<times> jsnum \<Rightarrow> jsnum" where
  "channel c (vr, vg, vb) = (if c = 0 then vr else if c = 1 then vg else vb)"

text \<open>The luminance that \<open>adjustSaturation\<close> binds to \<^verbatim>\<open>gray\<close> (line 52).\<close>

definition luminance :: "jsnum \<times> jsnum \<times> jsnum \<Rightarrow> jsnum" where
  "luminance rgb = (case rgb of (r, g, b) \<Rightarrow> lit 0.3 * r + lit 0.59 * g + lit 0.11 * b)"

text \<open>The channel values after the contrast remap and the brightness and warmth scaling.\<close>

definition adjustedPixel ::
    "jsnum \<Rightarrow> FilterPreset \<Rightarrow> jsnum \<times> jsnum \<times> jsnum \<Rightarrow> jsnum \<times> jsnum \<times> jsnum" where
  "adjustedPixel fac preset rgb =
     (case rgb of (r, g, b) \<Rightarrow>
        scaleChannels (brightness preset) (warmth preset)
          (contrastRemap fac r, contrastRemap fac g, contrastRemap fac b))"

text \<open>Two buffers of one length that differ at most in their alpha bytes.\<close>

definition agreeOffAlpha :: "u8 list \<Rightarrow> u8 list \<Rightarrow> bool" where
  "agreeOffAlpha data data' \<longleftrightarrow>
     length data' = length data \<and>
     list_all (\<lambda>j. j mod 4 = 3 \<or> data' ! j = data ! j) [0..<length data]"

text \<open>
  The finite doubles: an integer of fewer than 54 bits times a power of two between
  \<open>2 ^ - 1074\<close> and \<open>2 ^ 971\<close>.
\<close>

definition representable :: "real \<Rightarrow> bool" where
  "representable y \<longleftrightarrow>
     (\<exists>N k. y = real_of_int N * 2 powi k \<and> \<bar>N\<bar> < 2 ^ 53 \<and> - 1074 \<le> k \<and> k \<le> 971)"

section \<open>The transform as the specification words it\<close>

text \<open>
  The specification's clamp: values below 0 become 0, values above 255 become 255.
  Not-a-number is neither, and stays.
\<close>

fun spec_clamp :: "jsnum \<Rightarrow> jsnum" where
  "spec_clamp (Num x) = Num (if x < 0 then 0 else if 255 < x then 255 else x)"
| "spec_clamp PInf = Num 255"
| "spec_clamp NInf = Num 0"
| "spec_clamp NaN = NaN"

text \<open>
  The three steps of section 4.1 of the specification, in its order and its names, with
  a place after each step where a clamp could be applied: after the contrast remap,
  after the brightness and warmth scaling, after the saturation blend.
\<close>

definition spec_pipeline ::
    "(jsnum \<Rightarrow> jsnum) \<Rightarrow> (jsnum \<Rightarrow> jsnum) \<Rightarrow> (jsnum \<Rightarrow> jsnum) \<Rightarrow>
     FilterPreset \<Rightarrow> jsnum \<times> jsnum \<times> jsnum \<Rightarrow> jsnum \<times> jsnum \<times> jsnum" where
  "spec_pipeline afterContrast afterScaling afterBlend preset rgb =
     (case rgb of (R, G, B) \<Rightarrow>
        (let fac = (Num 259 * (contrast preset * Num 255 + Num 255))
                     / (Num 255 * (Num 259 - contrast preset * Num 255));
             R' = afterContrast (fac * (R - Num 128) + Num 128);
             G' = afterContrast (fac * (G - Num 128) + Num 128);
             B' = afterContrast (fac * (B - Num 128) + Num 128);
             R'' = afterScaling (R' * (brightness preset + warmth preset));
             G'' = afterScaling (G' * brightness preset);
             B'' = afterScaling (B' * (brightness preset - warmth preset));
             gray = lit 0.30 * R'' + lit 0.59 * G'' + lit 0.11 * B''
         in (afterBlend (gray + (R'' - gray) * saturation preset),
             afterBlend (gray + (G'' - gray) * saturation preset),
             afterBlend (gray + (B'' - gray) * saturation preset))))"

text \<open>The specification's transform: one clamp, after the blend.\<close>

definition spec_transform ::
    "FilterPreset \<Rightarrow> jsnum \<times> jsnum \<times> jsnum \<Rightarrow> jsnum \<times> jsnum \<times> jsnum" where
  "spec_transform preset rgb = spec_pipeline (\<lambda>v. v) (\<lambda>v. v) spec_clamp preset rgb"

text \<open>A number that lies within \<open>eps\<close> of the real \<open>c\<close>.\<close>

fun approximately :: "real \<Rightarrow> real \<Rightarrow> jsnum \<Rightarrow> bool" where
  "approximately eps c (Num x) = (\<bar>x - c\<bar> \<le> eps)"
| "approximately eps c _ = False"

text \<open>The nearest integer to a real, a tie going to the even neighbour.\<close>

definition nearestTiesToEven :: "real \<Rightarrow> nat \<Rightarrow> bool" where
  "nearestTiesToEven x n \<longleftrightarrow>
     \<bar>real n - x\<bar> \<le> 1 / 2 \<and> (\<bar>real n - x\<bar> < 1 / 2 \<or> even n)"

section \<open>Facts about rounding\<close>

declare applyLoop.simps [simp del]

subsection \<open>Powers of two\<close>

lemma p2_pos: "0 < (2::real) powi e"
  by simp

lemma p2_mono: "i \<le> j \<Longrightarrow> (2::real) powi i \<le> 2 powi j"
  by (rule power_int_increasing) simp_all

lemma p2_strict_mono: "i < j \<Longrightarrow> (2::real) powi i < 2 powi j"
  by (rule power_int_strict_increasing) simp_all

lemma p2_less_cancel: "(2::real) powi i < 2 powi j \<Longrightarrow> i < j"
  using p2_mono [of j i] by (cases "i < j") simp_all

lemma p2_add: "(2::real) powi (i + j) = 2 powi i * 2 powi j"
  by (rule power_int_add) simp

lemma p2_diff: "(2::real) powi (i - j) = 2 powi i / 2 powi j"
  by (rule power_int_diff) simp

lemma p2_nat: "0 \<le> k \<Longrightarrow> (2::real) powi k = real_of_int (2 ^ nat k)"
  by (simp add: power_int_def)

subsection \<open>The binary exponent\<close>

lemma exponent_bounds:
  assumes "0 < a"
  shows "2 powi (exponent a) \<le> a" and "a < 2 powi (exponent a + 1)"
proof -
  have "2 powi (exponent a) \<le> a \<and> a < 2 powi (exponent a + 1)"
  proof (cases "1 \<le> a")
    case True
    let ?f = "\<lfloor>a\<rfloor>"
    from True have f: "0 < ?f"
      by simp
    from bitlen_bounds [OF f]
    have lo: "2 ^ nat (bitlen ?f - 1) \<le> ?f" and hi: "?f < 2 ^ nat (bitlen ?f)"
      by simp_all
    from f have b: "1 \<le> bitlen ?f"
      using bitlen_eq_zero_iff [of ?f] bitlen_nonneg [of ?f] by linarith
    have e: "exponent a = bitlen ?f - 1"
      using True by (simp add: exponent_def)
    from lo have "real_of_int (2 ^ nat (bitlen ?f - 1)) \<le> real_of_int ?f"
      by (simp only: of_int_le_iff)
    also have "\<dots> \<le> a"
      by simp
    finally have "real_of_int (2 ^ nat (bitlen ?f - 1)) \<le> a" .
    moreover have "2 powi (bitlen ?f - 1) = real_of_int (2 ^ nat (bitlen ?f - 1))"
      using b by (intro p2_nat) linarith
    ultimately have 1: "2 powi (exponent a) \<le> a"
      unfolding e by linarith
    from hi have "?f + 1 \<le> 2 ^ nat (bitlen ?f)"
      by simp
    then have "real_of_int (?f + 1) \<le> real_of_int (2 ^ nat (bitlen ?f))"
      by (simp only: of_int_le_iff)
    moreover have "a < real_of_int (?f + 1)"
      by linarith
    ultimately have "a < real_of_int (2 ^ nat (bitlen ?f))"
      by linarith
    moreover have "2 powi (bitlen ?f) = real_of_int (2 ^ nat (bitlen ?f))"
      using b by (intro p2_nat) linarith
    ultimately have 2: "a < 2 powi (exponent a + 1)"
      unfolding e by simp
    from 1 2 show ?thesis ..
  next
    case False
    let ?c = "\<lceil>1 / a\<rceil>"
    from False assms have inv: "1 < 1 / a"
      by simp
    then have c: "0 < ?c - 1"
      by linarith
    let ?j = "bitlen (?c - 1)"
    from bitlen_bounds [OF c]
    have lo: "2 ^ nat (?j - 1) \<le> ?c - 1" and hi: "?c - 1 < 2 ^ nat ?j"
      by simp_all
    from c have j: "1 \<le> ?j"
      using bitlen_eq_zero_iff [of "?c - 1"] bitlen_nonneg [of "?c - 1"] by linarith
    have e: "exponent a = - ?j"
      using False by (simp add: exponent_def)
    from hi have "?c \<le> 2 ^ nat ?j"
      by simp
    then have "real_of_int ?c \<le> real_of_int (2 ^ nat ?j)"
      by (simp only: of_int_le_iff)
    moreover have "1 / a \<le> real_of_int ?c"
      by linarith
    moreover have "2 powi ?j = real_of_int (2 ^ nat ?j)"
      using j by (intro p2_nat) linarith
    ultimately have "1 / a \<le> 2 powi ?j"
      by linarith
    then have "1 \<le> 2 powi ?j * a"
      using assms by (simp add: field_simps)
    then have "2 powi (- ?j) \<le> a"
      by (simp add: power_int_minus field_simps)
    then have 1: "2 powi (exponent a) \<le> a"
      by (simp add: e)
    from lo have "real_of_int (2 ^ nat (?j - 1)) \<le> real_of_int (?c - 1)"
      by (simp only: of_int_le_iff)
    moreover have "real_of_int (?c - 1) < 1 / a"
      by linarith
    moreover have "2 powi (?j - 1) = real_of_int (2 ^ nat (?j - 1))"
      using j by (intro p2_nat) linarith
    ultimately have "2 powi (?j - 1) < 1 / a"
      by linarith
    then have "a * 2 powi (?j - 1) < 1"
      using assms by (simp add: field_simps)
    then have "a < 1 / 2 powi (?j - 1)"
      by (simp add: pos_less_divide_eq)
    moreover have "(2::real) powi (- ?j + 1) = 1 / 2 powi (?j - 1)"
      using p2_diff [of 0 "?j - 1"] by simp
    ultimately have "a < 2 powi (- ?j + 1)"
      by (simp only:)
    then have 2: "a < 2 powi (exponent a + 1)"
      by (simp add: e)
    from 1 2 show ?thesis ..
  qed
  then show "2 powi (exponent a) \<le> a" and "a < 2 powi (exponent a + 1)"
    by simp_all
qed

lemma exponent_unique:
  assumes "2 powi e \<le> a" and "a < 2 powi (e + 1)"
  shows "exponent a = e"
proof -
  have pos: "0 < a"
    using assms(1) p2_pos [of e] by linarith
  from exponent_bounds [OF pos] assms
  have "2 powi (exponent a) < (2::real) powi (e + 1)" and "(2::real) powi e < 2 powi (exponent a + 1)"
    by linarith+
  then have "exponent a < e + 1" and "e < exponent a + 1"
    by (auto dest: p2_less_cancel)
  then show ?thesis
    by simp
qed

subsection \<open>Rounding to an integer\<close>

lemma roundTiesToEven_of_int: "roundTiesToEven (real_of_int n) = n"
  by (simp add: roundTiesToEven_def Let_def)

lemma roundTiesToEven_ge: "real_of_int n \<le> x \<Longrightarrow> n \<le> roundTiesToEven x"
  by (auto simp: roundTiesToEven_def Let_def le_floor_iff) linarith+

lemma roundTiesToEven_le:
  assumes "x \<le> real_of_int n"
  shows "roundTiesToEven x \<le> n"
proof (cases "\<lfloor>x\<rfloor> = n")
  case True
  with assms have "x = real_of_int n"
    by linarith
  then show ?thesis
    by (simp add: roundTiesToEven_of_int)
next
  case False
  moreover from assms have "\<lfloor>x\<rfloor> \<le> n"
    by (simp add: floor_le_iff)
  ultimately have "\<lfloor>x\<rfloor> + 1 \<le> n"
    by linarith
  then show ?thesis
    by (auto simp: roundTiesToEven_def Let_def)
qed

subsection \<open>Rounding to a double\<close>

lemma p2_split: "(2::real) powi j = 2 powi (j - i) * 2 powi i"
  using p2_add [of "j - i" i] by simp

lemma quantum_pos: "0 < quantum x"
  by (simp add: quantum_def)

lemma quantum_minus: "quantum (- x) = quantum x"
  by (simp add: quantum_def)

lemma signedInf_not: "- signedInf b = signedInf (\<not> b)"
  by (simp add: signedInf_def)

lemma roundDouble_minus: "roundDouble (- x) = - roundDouble x"
proof (cases "x = 0")
  case True
  then show ?thesis
    by (simp add: roundDouble_def)
next
  case False
  then have "(0 < - x) = (\<not> 0 < x)"
    by auto
  with False show ?thesis
    by (simp add: roundDouble_def quantize_def quantum_minus Let_def signedInf_not)
qed

lemma roundDouble_pos:
  assumes "0 < x"
  shows "roundDouble x =
     (if 2 powi 1024 \<le> real_of_int (roundTiesToEven (x / quantum x)) * quantum x then PInf
      else Num (real_of_int (roundTiesToEven (x / quantum x)) * quantum x))"
  using assms by (simp add: roundDouble_def quantize_def Let_def signedInf_def)

lemma quantum_upper:
  assumes "0 < x"
  shows "x / quantum x < 2 ^ 53"
proof -
  let ?e = "max (exponent x) (- 1022)"
  have "x < 2 powi (exponent x + 1)"
    using assms by (rule exponent_bounds)
  also have "\<dots> \<le> 2 powi (?e + 1)"
    by (rule p2_mono) simp
  also have "\<dots> = 2 powi (?e - 52) * 2 powi 53"
    using p2_split [of "?e + 1" 53] by (simp add: mult.commute)
  finally have "x < quantum x * 2 ^ 53"
    using assms by (simp add: quantum_def)
  then show ?thesis
    using quantum_pos [of x] by (simp add: pos_divide_less_eq mult.commute)
qed

lemma quantum_lower:
  assumes "0 < x" and "- 1022 \<le> exponent x"
  shows "2 ^ 52 \<le> x / quantum x"
proof -
  from assms have q: "quantum x = 2 powi (exponent x - 52)"
    by (simp add: quantum_def max_def)
  have "2 powi (exponent x - 52) * 2 powi 52 = (2::real) powi (exponent x)"
    using p2_split [of "exponent x" 52] by simp
  moreover have "2 powi (exponent x) \<le> x"
    using assms(1) by (rule exponent_bounds)
  ultimately have "quantum x * 2 ^ 52 \<le> x"
    by (simp add: q)
  then show ?thesis
    using quantum_pos [of x] by (simp add: pos_le_divide_eq mult.commute)
qed

lemma multiple_of_quantum:
  assumes "y = real_of_int N * 2 powi k" and "e \<le> k"
  shows "y = real_of_int (N * 2 ^ nat (k - e)) * 2 powi e"
proof -
  have "(2::real) powi k = 2 powi (k - e) * 2 powi e"
    by (rule p2_split)
  also have "(2::real) powi (k - e) = real_of_int (2 ^ nat (k - e))"
    using assms(2) by (intro p2_nat) simp
  finally show ?thesis
    by (simp add: assms(1))
qed

lemma representable_less: 
  assumes "y = real_of_int N * 2 powi k" and "\<bar>N\<bar> < 2 ^ 53"
  shows "\<bar>y\<bar> < 2 powi (k + 53)"
proof -
  from assms(2) have "\<bar>real_of_int N\<bar> < 2 ^ 53"
    by (metis of_int_abs of_int_less_numeral_power_cancel_iff)
  then have "\<bar>real_of_int N\<bar> * 2 powi k < 2 ^ 53 * 2 powi k"
    by (intro mult_strict_right_mono) simp_all
  moreover have "(2::real) powi (k + 53) = 2 powi k * 2 ^ 53"
    using p2_split [of "k + 53" 53] by simp
  ultimately show ?thesis
    by (simp add: assms(1) abs_mult mult.commute)
qed

text \<open>A double at or above the binade of a positive number is a multiple of its quantum.\<close>

lemma representable_multiple:
  assumes "y = real_of_int N * 2 powi k" and "\<bar>N\<bar> < 2 ^ 53" and "- 1074 \<le> k"
    and "0 < x" and "2 powi (exponent x) \<le> \<bar>y\<bar> \<or> exponent x < - 1022"
  shows "\<exists>M. y = real_of_int M * quantum x"
proof -
  let ?e = "max (exponent x) (- 1022)"
  have "?e - 52 \<le> k"
  proof (cases "exponent x < - 1022")
    case True
    with assms(3) show ?thesis
      by simp
  next
    case False
    with assms(5) have "2 powi (exponent x) \<le> \<bar>y\<bar>"
      by simp
    moreover have "\<bar>y\<bar> < 2 powi (k + 53)"
      using assms(1,2) by (rule representable_less)
    ultimately have "(2::real) powi (exponent x) < 2 powi (k + 53)"
      by linarith
    then have "exponent x < k + 53"
      by (rule p2_less_cancel)
    with assms(3) show ?thesis
      by simp
  qed
  with assms(1) have "y = real_of_int (N * 2 ^ nat (k - (?e - 52))) * 2 powi (?e - 52)"
    by (rule multiple_of_quantum)
  moreover have "quantum x = 2 powi (?e - 52)"
    using assms(4) by (simp add: quantum_def)
  ultimately have "y = real_of_int (N * 2 ^ nat (k - (?e - 52))) * quantum x"
    by (simp only:)
  then show ?thesis ..
qed

lemma representable_minus: "representable y \<Longrightarrow> representable (- y)"
proof -
  assume "representable y"
  then obtain N k where "y = real_of_int N * 2 powi k" "\<bar>N\<bar> < 2 ^ 53" "- 1074 \<le> k" "k \<le> 971"
    unfolding representable_def by blast
  then have "- y = real_of_int (- N) * 2 powi k \<and> \<bar>- N\<bar> < 2 ^ 53 \<and> - 1074 \<le> k \<and> k \<le> 971"
    by simp
  then show ?thesis
    unfolding representable_def by blast
qed

lemma representable_below_overflow:
  assumes "representable y"
  shows "\<bar>y\<bar> < 2 powi 1024"
proof -
  from assms obtain N k where y: "y = real_of_int N * 2 powi k" "\<bar>N\<bar> < 2 ^ 53" and k: "k \<le> 971"
    unfolding representable_def by blast
  from y have "\<bar>y\<bar> < 2 powi (k + 53)"
    by (rule representable_less)
  also from k have "\<dots> \<le> 2 powi 1024"
    by (intro p2_mono) simp
  finally show ?thesis .
qed

text \<open>A double rounds to itself.\<close>

lemma roundDouble_exact_pos:
  assumes "representable y" and "0 < y"
  shows "roundDouble y = Num y"
proof -
  from assms(1) obtain N k where y: "y = real_of_int N * 2 powi k" "\<bar>N\<bar> < 2 ^ 53" and k: "- 1074 \<le> k"
    unfolding representable_def by blast
  from assms(2) have "2 powi (exponent y) \<le> \<bar>y\<bar> \<or> exponent y < - 1022"
    using exponent_bounds(1) [of y] by simp
  with y k assms(2) obtain M where M: "y = real_of_int M * quantum y"
    using representable_multiple by blast
  have "real_of_int M * quantum y / quantum y = real_of_int M"
    using quantum_pos [of y] by simp
  then have "y / quantum y = real_of_int M"
    by (simp only: M [symmetric])
  then have "real_of_int (roundTiesToEven (y / quantum y)) * quantum y = y"
    using M by (simp add: roundTiesToEven_of_int)
  moreover have "y < 2 powi 1024"
    using representable_below_overflow [OF assms(1)] by simp
  ultimately show ?thesis
    using assms(2) by (simp add: roundDouble_pos)
qed

lemma roundDouble_exact:
  assumes "representable y"
  shows "roundDouble y = Num y"
proof -
  consider "y = 0" | "0 < y" | "0 < - y"
    by linarith
  then show ?thesis
  proof cases
    case 1
    then show ?thesis
      by (simp add: roundDouble_def)
  next
    case 2
    with assms show ?thesis
      by (rule roundDouble_exact_pos)
  next
    case 3
    with assms have "roundDouble (- y) = Num (- y)"
      by (intro roundDouble_exact_pos representable_minus)
    then have "- roundDouble y = Num (- y)"
      by (simp add: roundDouble_minus)
    then show ?thesis
      by (cases "roundDouble y") simp_all
  qed
qed

text \<open>What rounding returns is a double.\<close>

lemma roundDouble_representable_pos:
  assumes "roundDouble x = Num y" and "0 < x"
  shows "representable y"
proof -
  let ?e = "max (exponent x) (- 1022)"
  let ?n = "roundTiesToEven (x / quantum x)"
  have q: "quantum x = 2 powi (?e - 52)"
    using assms(2) by (simp add: quantum_def)
  from assms have y: "y = real_of_int ?n * quantum x" and fin: "real_of_int ?n * quantum x < 2 powi 1024"
    by (simp_all add: roundDouble_pos split: if_splits)
  have "0 \<le> x / quantum x"
    using assms(2) quantum_pos [of x] by simp
  then have "real_of_int 0 \<le> x / quantum x"
    by simp
  then have n0: "0 \<le> ?n"
    by (rule roundTiesToEven_ge)
  have "x / quantum x \<le> real_of_int (2 ^ 53)"
    using quantum_upper [OF assms(2)] by simp
  then have n53: "?n \<le> 2 ^ 53"
    by (rule roundTiesToEven_le)
  have e1023: "?e \<le> 1023"
  proof (rule ccontr)
    assume "\<not> ?e \<le> 1023"
    then have big: "1024 \<le> exponent x"
      by simp
    then have "real_of_int (2 ^ 52) \<le> x / quantum x"
      using quantum_lower [OF assms(2)] by simp
    then have "2 ^ 52 \<le> ?n"
      by (rule roundTiesToEven_ge)
    then have "real_of_int (2 ^ 52) \<le> real_of_int ?n"
      by (simp only: of_int_le_iff)
    then have "2 ^ 52 * quantum x \<le> real_of_int ?n * quantum x"
      using quantum_pos [of x] by (intro mult_right_mono) simp_all
    moreover have "2 ^ 52 * quantum x = 2 powi ?e"
      using p2_split [of ?e "?e - 52"] by (simp add: q)
    moreover have "(2::real) powi 1024 \<le> 2 powi ?e"
      using big by (intro p2_mono) simp
    ultimately show False
      using fin by linarith
  qed
  show ?thesis
  proof (cases "?n = 2 ^ 53")
    case True
    from y fin have y53: "y = real_of_int (2 ^ 53) * quantum x"
      and fin53: "real_of_int (2 ^ 53) * quantum x < 2 powi 1024"
      by (simp_all only: True)
    have "y = real_of_int (2 ^ 52) * 2 powi (?e - 51)"
      using p2_split [of "?e - 51" "?e - 52"] by (simp add: y53 q)
    moreover have "(2::real) powi (?e + 1) = 2 ^ 53 * 2 powi (?e - 52)"
      using p2_split [of "?e + 1" "?e - 52"] by simp
    with fin53 have "(2::real) powi (?e + 1) < 2 powi 1024"
      by (simp add: q)
    then have "?e + 1 < 1024"
      by (rule p2_less_cancel)
    then have "?e - 51 \<le> 971" and "- 1074 \<le> ?e - 51"
      by simp_all
    moreover have "\<bar>2 ^ 52 :: int\<bar> < 2 ^ 53"
      by simp
    ultimately show ?thesis
      unfolding representable_def by blast
  next
    case False
    with n0 n53 have "\<bar>?n\<bar> < 2 ^ 53"
      by simp
    moreover have "y = real_of_int ?n * 2 powi (?e - 52)"
      by (simp add: y q)
    moreover from e1023 have "?e - 52 \<le> 971" and "- 1074 \<le> ?e - 52"
      by simp_all
    ultimately show ?thesis
      unfolding representable_def by blast
  qed
qed

lemma representable_0: "representable 0"
proof -
  have "(0::real) = real_of_int 0 * 2 powi 0 \<and> \<bar>0::int\<bar> < 2 ^ 53 \<and> - 1074 \<le> (0::int) \<and> (0::int) \<le> 971"
    by simp
  then show ?thesis
    unfolding representable_def by blast
qed

lemma roundDouble_representable:
  assumes "roundDouble x = Num y"
  shows "representable y"
proof -
  consider "x = 0" | "0 < x" | "0 < - x"
    by linarith
  then show ?thesis
  proof cases
    case 1
    with assms show ?thesis
      by (simp add: roundDouble_def representable_0)
  next
    case 2
    with assms show ?thesis
      by (rule roundDouble_representable_pos)
  next
    case 3
    from assms have "roundDouble (- x) = Num (- y)"
      by (simp add: roundDouble_minus)
    from this 3 have "representable (- y)"
      by (rule roundDouble_representable_pos)
    then have "representable (- (- y))"
      by (rule representable_minus)
    then show ?thesis
      by simp
  qed
qed

lemma roundDouble_idem: "roundDouble x = Num y \<Longrightarrow> roundDouble y = Num y"
  by (intro roundDouble_exact roundDouble_representable)

text \<open>Rounding does not cross a double: between two doubles, the result stays between them.\<close>

lemma roundDouble_bracket_pos:
  assumes "representable lo" and "representable hi" and "0 \<le> lo" and "lo \<le> x" and "x \<le> hi"
    and "0 < x"
  shows "\<exists>y. roundDouble x = Num y \<and> lo \<le> y \<and> y \<le> hi"
proof -
  let ?n = "roundTiesToEven (x / quantum x)"
  let ?m = "real_of_int ?n * quantum x"
  note qpos = quantum_pos [of x]
  from assms(2) obtain Nh kh where hi: "hi = real_of_int Nh * 2 powi kh" "\<bar>Nh\<bar> < 2 ^ 53" "- 1074 \<le> kh"
    unfolding representable_def by blast
  have "2 powi (exponent x) \<le> x"
    using assms(6) by (rule exponent_bounds)
  with assms(5) have "2 powi (exponent x) \<le> \<bar>hi\<bar>"
    by linarith
  then have "2 powi (exponent x) \<le> \<bar>hi\<bar> \<or> exponent x < - 1022" ..
  with hi assms(6) obtain Mh where Mh: "hi = real_of_int Mh * quantum x"
    using representable_multiple by blast
  have "x / quantum x \<le> real_of_int Mh * quantum x / quantum x"
    using assms(5) qpos unfolding Mh by (intro divide_right_mono) simp_all
  then have "x / quantum x \<le> real_of_int Mh"
    using qpos by simp
  then have "?n \<le> Mh"
    by (rule roundTiesToEven_le)
  then have "real_of_int ?n \<le> real_of_int Mh"
    by (simp only: of_int_le_iff)
  then have "?m \<le> real_of_int Mh * quantum x"
    using qpos by (intro mult_right_mono) simp_all
  then have upper: "?m \<le> hi"
    by (simp only: Mh [symmetric])
  have "hi < 2 powi 1024"
    using representable_below_overflow [OF assms(2)] by simp
  with upper have fin: "\<not> 2 powi 1024 \<le> ?m"
    by simp
  have lower: "lo \<le> ?m"
  proof (cases "2 powi (exponent x) \<le> lo \<or> exponent x < - 1022")
    case True
    from assms(1) obtain Nl kl where lo: "lo = real_of_int Nl * 2 powi kl" "\<bar>Nl\<bar> < 2 ^ 53" "- 1074 \<le> kl"
      unfolding representable_def by blast
    from assms(3) have "\<bar>lo\<bar> = lo"
      by simp
    with True have "2 powi (exponent x) \<le> \<bar>lo\<bar> \<or> exponent x < - 1022"
      by (simp only:)
    with lo assms(6) obtain Ml where Ml: "lo = real_of_int Ml * quantum x"
      using representable_multiple by blast
    have "real_of_int Ml * quantum x / quantum x \<le> x / quantum x"
      using assms(4) qpos unfolding Ml by (intro divide_right_mono) simp_all
    then have "real_of_int Ml \<le> x / quantum x"
      using qpos by simp
    then have "Ml \<le> ?n"
      by (rule roundTiesToEven_ge)
    then have "real_of_int Ml \<le> real_of_int ?n"
      by (simp only: of_int_le_iff)
    then have "real_of_int Ml * quantum x \<le> ?m"
      using qpos by (intro mult_right_mono) simp_all
    then show ?thesis
      by (simp only: Ml [symmetric])
  next
    case False
    then have below: "lo < 2 powi (exponent x)" and normal: "- 1022 \<le> exponent x"
      by simp_all
    have "real_of_int (2 ^ 52) \<le> x / quantum x"
      using quantum_lower [OF assms(6) normal] by simp
    then have "2 ^ 52 \<le> ?n"
      by (rule roundTiesToEven_ge)
    then have "real_of_int (2 ^ 52) \<le> real_of_int ?n"
      by (simp only: of_int_le_iff)
    then have "real_of_int (2 ^ 52) * quantum x \<le> ?m"
      using qpos by (intro mult_right_mono) simp_all
    moreover have "quantum x = 2 powi (exponent x - 52)"
      using assms(6) normal by (simp add: quantum_def max_def)
    moreover have "(2::real) powi (exponent x) = 2 powi 52 * 2 powi (exponent x - 52)"
      using p2_split [of "exponent x" "exponent x - 52"] by simp
    ultimately have "2 powi (exponent x) \<le> ?m"
      by simp
    with below show ?thesis
      by linarith
  qed
  from fin have "roundDouble x = Num ?m"
    using assms(6) by (simp add: roundDouble_pos)
  with lower upper show ?thesis
    by blast
qed

lemma roundDouble_bracket:
  assumes "representable lo" and "representable hi" and "0 \<le> lo" and "lo \<le> x" and "x \<le> hi"
  shows "\<exists>y. roundDouble x = Num y \<and> lo \<le> y \<and> y \<le> hi"
proof (cases "x = 0")
  case True
  with assms(3-5) show ?thesis
    by (simp add: roundDouble_def)
next
  case False
  with assms(3,4) have "0 < x"
    by simp
  with assms show ?thesis
    by (rule roundDouble_bracket_pos)
qed

text \<open>
  The difference of an integer and a double at least half and at most twice as large is
  a double (a case of Sterbenz's lemma).
\<close>

lemma representable_int_minus:
  assumes "representable g" and "0 \<le> g" and "g < 2 ^ 53" and "\<bar>real_of_int V - g\<bar> \<le> g"
  shows "representable (real_of_int V - g)"
proof -
  from assms(1) obtain N k where g: "g = real_of_int N * 2 powi k" and N: "\<bar>N\<bar> < 2 ^ 53"
    and k: "- 1074 \<le> k" "k \<le> 971"
    unfolding representable_def by blast
  show ?thesis
  proof (cases "0 \<le> k")
    case True
    then have "g = real_of_int (N * 2 ^ nat k)"
      by (simp add: g p2_nat)
    then obtain G where G: "g = real_of_int G" ..
    have "\<bar>real_of_int (V - G)\<bar> < 2 ^ 53"
      using assms(3,4) by (simp add: G)
    then have "\<bar>V - G\<bar> < 2 ^ 53"
      by (metis of_int_abs of_int_less_numeral_power_cancel_iff)
    moreover have "real_of_int V - g = real_of_int (V - G) * 2 powi 0"
      by (simp add: G)
    ultimately show ?thesis
      unfolding representable_def by (intro exI [of _ "V - G"] exI [of _ 0]) simp
  next
    case False
    let ?M = "V * 2 ^ nat (- k) - N"
    have one: "(2::real) powi (- k) * 2 powi k = 1"
      using p2_add [of "- k" k] by simp
    have "(2::real) powi (- k) = real_of_int (2 ^ nat (- k))"
      using False by (intro p2_nat) simp
    then have "real_of_int V = real_of_int (V * 2 ^ nat (- k)) * 2 powi k"
      using one by (simp add: mult.assoc)
    then have diff: "real_of_int V - g = real_of_int ?M * 2 powi k"
      by (simp add: g algebra_simps)
    have "\<bar>real_of_int ?M\<bar> * 2 powi k = \<bar>real_of_int V - g\<bar>"
      by (simp add: diff abs_mult)
    also have "\<dots> \<le> real_of_int N * 2 powi k"
      using assms(4) by (simp only: g)
    finally have "\<bar>real_of_int ?M\<bar> \<le> real_of_int N"
      by simp
    then have "\<bar>?M\<bar> \<le> N"
      by (metis of_int_abs of_int_le_iff)
    with N have "\<bar>?M\<bar> < 2 ^ 53"
      by simp
    with diff k show ?thesis
      unfolding representable_def by blast
  qed
qed

lemma representable_int:
  assumes "\<bar>V\<bar> < 2 ^ 53"
  shows "representable (real_of_int V)"
proof -
  have "real_of_int V = real_of_int V * 2 powi 0 \<and> \<bar>V\<bar> < 2 ^ 53 \<and> - 1074 \<le> (0::int) \<and> (0::int) \<le> 971"
    using assms by simp
  then show ?thesis
    unfolding representable_def by blast
qed

lemma representable_half:
  assumes "\<bar>V\<bar> < 2 ^ 53"
  shows "representable (real_of_int V / 2)"
proof -
  have "real_of_int V / 2 = real_of_int V * 2 powi (- 1) \<and> \<bar>V\<bar> < 2 ^ 53
      \<and> - 1074 \<le> (- 1::int) \<and> (- 1::int) \<le> 971"
    using assms by simp
  then show ?thesis
    unfolding representable_def by blast
qed

subsection \<open>Evaluating the arithmetic on numerals\<close>

lemma Let_value:
  "Let (Num x) f = f (Num x)" "Let PInf f = f PInf" "Let NInf f = f NInf" "Let NaN f = f NaN"
  "Let [] g = g []" "Let (y # ys) g = g (y # ys)"
  "Let (numeral a / numeral b :: real) h = h (numeral a / numeral b)"
  "Let (1 / numeral b :: real) h = h (1 / numeral b)"
  by (simp_all add: Let_def)

lemmas num_defs =
  roundDouble_def quantum_def quantize_def exponent_def compute_bitlen roundTiesToEven_def
  lit_def signedInf_def Let_value

lemma lit_values:
  "lit 0.3 = Num (5404319552844595 / 18014398509481984)"
  "lit 0.59 = Num (5314247560297185 / 9007199254740992)"
  "lit 0.11 = Num (7926335344172073 / 72057594037927936)"
  by (simp_all add: num_defs)

subsection \<open>Operations that are exact\<close>

lemma Num_int_exact:
  "\<bar>A + B\<bar> < 2 ^ 53 \<Longrightarrow> Num (real_of_int A) + Num (real_of_int B) = Num (real_of_int (A + B))"
  "\<bar>A - B\<bar> < 2 ^ 53 \<Longrightarrow> Num (real_of_int A) - Num (real_of_int B) = Num (real_of_int (A - B))"
  "\<bar>A * B\<bar> < 2 ^ 53 \<Longrightarrow> Num (real_of_int A) * Num (real_of_int B) = Num (real_of_int (A * B))"
  using roundDouble_exact [OF representable_int, of "A + B"]
    roundDouble_exact [OF representable_int, of "A - B"]
    roundDouble_exact [OF representable_int, of "A * B"]
  by simp_all

lemma Num_times_one: "representable y \<Longrightarrow> Num y * Num 1 = Num y"
  by (simp add: roundDouble_exact)

lemma Num_one_times: "representable y \<Longrightarrow> Num 1 * Num y = Num y"
  by (simp add: roundDouble_exact)

text \<open>The luminance of a gray pixel lies between half and twice its value.\<close>

lemma gray_luminance:
  assumes "0 \<le> V" and "V \<le> 255"
  shows "\<exists>g. lit 0.3 * Num (real_of_int V) + lit 0.59 * Num (real_of_int V)
           + lit 0.11 * Num (real_of_int V) = Num g
         \<and> representable g \<and> real_of_int V / 2 \<le> g \<and> g \<le> 2 * real_of_int V"
proof -
  let ?v = "real_of_int V"
  from assms have v: "0 \<le> ?v"
    by simp
  from assms have rV: "representable (?v / 2)" "representable ?v"
    by (auto intro!: representable_half representable_int)
  from assms have "\<bar>3 * V\<bar> < 2 ^ 53"
    by simp
  then have r3V: "representable (real_of_int (3 * V) / 2)"
    by (rule representable_half)
  from assms have "\<bar>2 * V\<bar> < 2 ^ 53"
    by simp
  then have r2V: "representable (real_of_int (2 * V))"
    by (rule representable_int)
  have "0 \<le> 5404319552844595 / 18014398509481984 * ?v"
    and "5404319552844595 / 18014398509481984 * ?v \<le> ?v / 2"
    using v by simp_all
  with representable_0 rV(1) obtain a3
    where a3: "roundDouble (5404319552844595 / 18014398509481984 * ?v) = Num a3" "0 \<le> a3" "a3 \<le> ?v / 2"
    using roundDouble_bracket [of 0 "?v / 2" "5404319552844595 / 18014398509481984 * ?v"] by auto
  have "?v / 2 \<le> 5314247560297185 / 9007199254740992 * ?v"
    and "5314247560297185 / 9007199254740992 * ?v \<le> ?v"
    using v by simp_all
  with rV v obtain a59
    where a59: "roundDouble (5314247560297185 / 9007199254740992 * ?v) = Num a59" "?v / 2 \<le> a59" "a59 \<le> ?v"
    using roundDouble_bracket [of "?v / 2" ?v "5314247560297185 / 9007199254740992 * ?v"] by auto
  have "0 \<le> 7926335344172073 / 72057594037927936 * ?v"
    and "7926335344172073 / 72057594037927936 * ?v \<le> ?v / 2"
    using v by simp_all
  with representable_0 rV(1) obtain a11
    where a11: "roundDouble (7926335344172073 / 72057594037927936 * ?v) = Num a11" "0 \<le> a11" "a11 \<le> ?v / 2"
    using roundDouble_bracket [of 0 "?v / 2" "7926335344172073 / 72057594037927936 * ?v"] by auto
  from a3 a59 have "?v / 2 \<le> a3 + a59" and "a3 + a59 \<le> real_of_int (3 * V) / 2"
    by simp_all
  with rV(1) r3V v obtain a
    where a: "roundDouble (a3 + a59) = Num a" "?v / 2 \<le> a" "a \<le> real_of_int (3 * V) / 2"
    using roundDouble_bracket [of "?v / 2" "real_of_int (3 * V) / 2" "a3 + a59"] by auto
  from a a11 have "?v / 2 \<le> a + a11" and "a + a11 \<le> real_of_int (2 * V)"
    by simp_all
  with rV(1) r2V v obtain g
    where g: "roundDouble (a + a11) = Num g" "?v / 2 \<le> g" "g \<le> real_of_int (2 * V)"
    using roundDouble_bracket [of "?v / 2" "real_of_int (2 * V)" "a + a11"] by auto
  from g(1) have "representable g"
    by (rule roundDouble_representable)
  moreover have "lit 0.3 * Num ?v + lit 0.59 * Num ?v + lit 0.11 * Num ?v = Num g"
    unfolding lit_values times_jsnum.simps plus_jsnum.simps a3(1) a59(1) a11(1) a(1) g(1) ..
  ultimately show ?thesis
    using g(2,3) by auto
qed

lemma gray_blend:
  assumes "0 \<le> V" and "V \<le> 255"
    and "representable g" and "real_of_int V / 2 \<le> g" and "g \<le> 2 * real_of_int V"
  shows "Num g + (Num (real_of_int V) - Num g) * Num 1 = Num (real_of_int V)"
proof -
  let ?v = "real_of_int V"
  from assms have g0: "0 \<le> g" and g53: "g < 2 ^ 53" and near: "\<bar>?v - g\<bar> \<le> g"
    by simp_all
  with assms(3) have d: "representable (?v - g)"
    by (intro representable_int_minus)
  from assms have "representable ?v"
    by (intro representable_int) simp
  then have "roundDouble (g + (?v - g)) = Num ?v"
    by (simp add: roundDouble_exact)
  with d show ?thesis
    by (simp add: roundDouble_exact)
qed

section \<open>Facts about the transform\<close>

subsection \<open>The clamp, the buffer and the loop\<close>

lemma clamp_simps:
  "clamp (Num x) = Num (min 255 (max 0 x))"
  "clamp PInf = Num 255"
  "clamp NInf = Num 0"
  "clamp NaN = NaN"
  by (simp_all add: clamp_def)

lemma clamp_eq_spec_clamp: "clamp v = spec_clamp v"
  by (cases v) (auto simp: clamp_simps)

lemma clamp_range: "clamp v = NaN \<or> (\<exists>x. clamp v = Num x \<and> 0 \<le> x \<and> x \<le> 255)"
  by (cases v) (auto simp: clamp_simps)

lemma length_dataSet: "length (dataSet data i v) = length data"
  by (simp add: dataSet_def)

lemma length_storePixel: "length (storePixel data i sat) = length data"
  by (cases sat) (simp add: storePixel_def length_dataSet)

lemma nth_dataSet:
  "dataSet data i v ! j = (if j = i \<and> i < length data then ToUint8Clamp v else data ! j)"
  by (simp add: dataSet_def)

lemma nth_storePixel:
  "j < length data \<Longrightarrow> storePixel data i sat ! j =
     (if j = i \<or> j = i + 1 \<or> j = i + 2 then ToUint8Clamp (channel (j - i) sat) else data ! j)"
  by (cases sat) (auto simp: storePixel_def nth_dataSet length_dataSet)

lemma dataGet_storePixel: "i + 2 < j \<Longrightarrow> dataGet (storePixel data i sat) j = dataGet data j"
  by (simp add: dataGet_def length_storePixel nth_storePixel)

lemma pixelAt_storePixel: "i + 2 < j \<Longrightarrow> pixelAt (storePixel data i sat) j = pixelAt data j"
  by (simp add: pixelAt_def dataGet_storePixel)

lemma applyLoop_step:
  "i < length data \<Longrightarrow>
   applyLoop fac preset i data =
     applyLoop fac preset (i + 4) (storePixel data i (filterPixel fac preset (pixelAt data i)))"
  by (subst applyLoop.simps)
     (simp add: storePixel_def filterPixel_def pixelAt_def Let_def split: prod.splits)

lemma applyLoop_stop: "\<not> i < length data \<Longrightarrow> applyLoop fac preset i data = data"
  by (subst applyLoop.simps) simp

lemma length_applyLoop: "length (applyLoop fac preset i data) = length data"
proof (induction "length data - i" arbitrary: i data rule: less_induct)
  case less
  show ?case
  proof (cases "i < length data")
    case True
    let ?data' = "storePixel data i (filterPixel fac preset (pixelAt data i))"
    have len: "length ?data' = length data"
      by (rule length_storePixel)
    with True have "length ?data' - (i + 4) < length data - i"
      by simp
    then have "length (applyLoop fac preset (i + 4) ?data') = length ?data'"
      by (rule less)
    with True len show ?thesis
      by (simp add: applyLoop_step)
  next
    case False
    then show ?thesis
      by (simp add: applyLoop_stop)
  qed
qed

lemma applyLoop_below: "j < i \<Longrightarrow> applyLoop fac preset i data ! j = data ! j"
proof (induction "length data - i" arbitrary: i data rule: less_induct)
  case less
  show ?case
  proof (cases "i < length data")
    case True
    let ?data' = "storePixel data i (filterPixel fac preset (pixelAt data i))"
    have len: "length ?data' = length data"
      by (rule length_storePixel)
    with True have "length ?data' - (i + 4) < length data - i"
      by simp
    moreover from less.prems have "j < i + 4"
      by simp
    ultimately have "applyLoop fac preset (i + 4) ?data' ! j = ?data' ! j"
      by (rule less.hyps)
    moreover from less.prems True have "?data' ! j = data ! j"
      by (simp add: nth_storePixel)
    ultimately show ?thesis
      using True by (simp add: applyLoop_step)
  next
    case False
    then show ?thesis
      by (simp add: applyLoop_stop)
  qed
qed

lemma applyLoop_pixel:
  "c < 4 \<Longrightarrow> i + 4 * m + c < length data \<Longrightarrow>
   applyLoop fac preset i data ! (i + 4 * m + c) =
     (if c = 3 then data ! (i + 4 * m + c)
      else ToUint8Clamp (channel c (filterPixel fac preset (pixelAt data (i + 4 * m)))))"
proof (induction m arbitrary: i data)
  case 0
  let ?data' = "storePixel data i (filterPixel fac preset (pixelAt data i))"
  from 0 have i: "i < length data"
    by simp
  from 0 have "applyLoop fac preset (i + 4) ?data' ! (i + c) = ?data' ! (i + c)"
    by (simp add: applyLoop_below)
  with 0 i show ?case
    by (simp add: applyLoop_step nth_storePixel)
next
  case (Suc m)
  let ?data' = "storePixel data i (filterPixel fac preset (pixelAt data i))"
  from Suc.prems have i: "i < length data"
    by simp
  have len: "length ?data' = length data"
    by (rule length_storePixel)
  have idx: "i + 4 * Suc m + c = (i + 4) + 4 * m + c" "i + 4 * Suc m = (i + 4) + 4 * m"
    by simp_all
  from Suc.prems len have "(i + 4) + 4 * m + c < length ?data'"
    by simp
  with Suc.prems(1)
  have "applyLoop fac preset (i + 4) ?data' ! ((i + 4) + 4 * m + c) =
     (if c = 3 then ?data' ! ((i + 4) + 4 * m + c)
      else ToUint8Clamp (channel c (filterPixel fac preset (pixelAt ?data' ((i + 4) + 4 * m)))))"
    by (rule Suc.IH)
  also have "pixelAt ?data' ((i + 4) + 4 * m) = pixelAt data ((i + 4) + 4 * m)"
    by (simp add: pixelAt_storePixel)
  also from Suc.prems have "?data' ! ((i + 4) + 4 * m + c) = data ! ((i + 4) + 4 * m + c)"
    by (simp add: nth_storePixel)
  finally show ?case
    unfolding idx applyLoop_step [OF i] .
qed

lemma applyFilters_nth:
  assumes "c < 4" and "4 * k + c < length data"
  shows "applyFilters data preset ! (4 * k + c) =
     (if c = 3 then data ! (4 * k + c)
      else ToUint8Clamp
             (channel c (filterPixel (factor (contrast preset)) preset (pixelAt data (4 * k)))))"
  using applyLoop_pixel [of c 0 k data "factor (contrast preset)" preset] assms
  by (simp add: applyFilters_def)

lemma length_applyFilters: "length (applyFilters data preset) = length data"
  by (simp add: applyFilters_def length_applyLoop)

lemma roundTiesToEven_nearest:
  assumes "0 \<le> x" and "x \<le> 255"
  shows "0 \<le> roundTiesToEven x" and "roundTiesToEven x \<le> 255"
    and "\<bar>of_int (roundTiesToEven x) - x\<bar> \<le> 1 / 2"
    and "\<bar>of_int (roundTiesToEven x) - x\<bar> < 1 / 2 \<or> even (roundTiesToEven x)"
proof -
  let ?f = "\<lfloor>x\<rfloor>"
  have lo: "of_int ?f \<le> x" and hi: "x < of_int ?f + 1"
    by linarith+
  from assms(1) have f0: "0 \<le> ?f"
    by simp
  from assms(2) have f255: "?f \<le> 255"
    by (simp add: floor_le_iff)
  show "0 \<le> roundTiesToEven x"
    using f0 by (simp add: roundTiesToEven_def Let_def)
  show "roundTiesToEven x \<le> 255"
  proof (cases "?f = 255")
    case True
    with lo assms(2) have "x = 255" by simp
    then show ?thesis by (simp add: roundTiesToEven_def Let_def)
  next
    case False
    with f255 have "?f + 1 \<le> 255" by linarith
    with f255 show ?thesis by (simp add: roundTiesToEven_def Let_def)
  qed
  show "\<bar>of_int (roundTiesToEven x) - x\<bar> \<le> 1 / 2"
    using lo hi by (auto simp: roundTiesToEven_def Let_def)
  show "\<bar>of_int (roundTiesToEven x) - x\<bar> < 1 / 2 \<or> even (roundTiesToEven x)"
    using lo hi by (auto simp: roundTiesToEven_def Let_def)
qed

lemma roundTiesToEven_of_nat: "roundTiesToEven (real n) = int n"
  by (simp add: roundTiesToEven_def Let_def)

lemma unat_byte_of_int:
  assumes "0 \<le> r" and "r \<le> 255"
  shows "unat (word_of_int r :: u8) = nat r"
proof -
  from assms have "r mod 2 ^ LENGTH(8) = r"
    by simp
  then have "uint (word_of_int r :: u8) = r"
    by (simp add: uint_word_of_int)
  then show ?thesis
    by (simp add: unat_eq_nat_uint)
qed

lemma unat_byte_le: "unat (w :: u8) \<le> 255"
proof -
  have "unat w < 2 ^ LENGTH(8)"
    by (rule unsigned_less)
  then show ?thesis
    by simp
qed

lemma ToUint8Clamp_unat: "ToUint8Clamp (Num (real (unat (w :: u8)))) = w"
proof -
  have "real (unat w) \<le> real 255"
    using unat_byte_le [of w] by (simp only: of_nat_le_iff)
  then have "min 255 (max 0 (real (unat w))) = real (unat w)"
    by (simp del: of_nat_unat)
  then have "ToUint8Clamp (Num (real (unat w))) = word_of_int (int (unat w))"
    by (simp add: roundTiesToEven_of_nat del: of_nat_unat)
  then show ?thesis
    by simp
qed

lemma ToUint8Clamp_clamp_Num:
  assumes "clamp v = Num x"
  shows "0 \<le> x" and "x \<le> 255"
    and "ToUint8Clamp (clamp v) = word_of_int (roundTiesToEven x)"
    and "nearestTiesToEven x (unat (ToUint8Clamp (clamp v)))"
proof -
  from clamp_range [of v] assms show x: "0 \<le> x" "x \<le> 255"
    by auto
  then have mm: "min 255 (max 0 x) = x"
    by simp
  with assms show st: "ToUint8Clamp (clamp v) = word_of_int (roundTiesToEven x)"
    by simp
  have "unat (word_of_int (roundTiesToEven x) :: u8) = nat (roundTiesToEven x)"
    using x by (simp add: unat_byte_of_int roundTiesToEven_nearest)
  then have "real (unat (ToUint8Clamp (clamp v))) = of_int (roundTiesToEven x)"
    using st roundTiesToEven_nearest(1) [OF x] by simp
  moreover have "even (nat (roundTiesToEven x)) = even (roundTiesToEven x)"
    using roundTiesToEven_nearest(1) [OF x] by (simp add: even_nat_iff)
  ultimately show "nearestTiesToEven x (unat (ToUint8Clamp (clamp v)))"
    using roundTiesToEven_nearest(3,4) [OF x] st
      \<open>unat (word_of_int (roundTiesToEven x) :: u8) = nat (roundTiesToEven x)\<close>
    by (auto simp: nearestTiesToEven_def)
qed

lemma clamp_not_inf: "clamp v \<noteq> PInf" "clamp v \<noteq> NInf"
  using clamp_range [of v] by auto

lemma filterPixel_spec_pipeline:
  "filterPixel (factor (contrast preset)) preset rgb =
     spec_pipeline (\<lambda>v. v) (\<lambda>v. v) clamp preset rgb"
  by (cases rgb)
     (simp add: filterPixel_def spec_pipeline_def factor_def contrastRemap_def
        scaleChannels_def adjustSaturation_def Let_def)

lemma filterPixel_spec_transform:
  "filterPixel (factor (contrast preset)) preset rgb = spec_transform preset rgb"
  by (cases rgb)
     (simp add: filterPixel_def spec_transform_def spec_pipeline_def factor_def contrastRemap_def
        scaleChannels_def adjustSaturation_def Let_def clamp_eq_spec_clamp)

lemma filterPixel_clamped:
  "\<exists>w. channel c (filterPixel fac preset rgb) = clamp w"
  by (cases rgb)
     (auto simp: filterPixel_def scaleChannels_def adjustSaturation_def Let_def)

lemma agreeOffAlpha_nth:
  "agreeOffAlpha data data' \<Longrightarrow> j < length data \<Longrightarrow> j mod 4 \<noteq> 3 \<Longrightarrow> data' ! j = data ! j"
  by (auto simp: agreeOffAlpha_def list_all_iff)

lemma agreeOffAlpha_dataGet:
  assumes "agreeOffAlpha data data'" and "j mod 4 \<noteq> 3"
  shows "dataGet data' j = dataGet data j"
proof (cases "j < length data")
  case True
  with assms show ?thesis
    by (simp add: dataGet_def agreeOffAlpha_nth) (simp add: agreeOffAlpha_def)
next
  case False
  with assms(1) show ?thesis
    by (simp add: dataGet_def agreeOffAlpha_def)
qed

lemma agreeOffAlpha_pixelAt:
  assumes "agreeOffAlpha data data'"
  shows "pixelAt data' (4 * k) = pixelAt data (4 * k)"
proof -
  have "(4 * k) mod 4 \<noteq> 3" "(4 * k + 1) mod 4 \<noteq> 3" "(4 * k + 2) mod 4 \<noteq> 3"
    by presburger+
  with assms show ?thesis
    by (simp add: pixelAt_def agreeOffAlpha_dataGet)
qed


subsection \<open>Saturation 0\<close>

lemma weighted_Num: "Num w * v = Num y \<Longrightarrow> \<exists>a. v = Num a"
  by (cases v) (auto simp: signedInf_def split: if_splits)

lemma plus_Num: "u + v = Num y \<Longrightarrow> (\<exists>a. u = Num a) \<and> (\<exists>b. v = Num b)"
  by (cases u; cases v) auto

lemma plus_representable: "u + v = Num y \<Longrightarrow> representable y"
  by (cases u; cases v) (auto dest: roundDouble_representable)

lemma luminance_Num:
  assumes "luminance (r, g, b) = Num x"
  shows "(\<exists>vr vg vb. r = Num vr \<and> g = Num vg \<and> b = Num vb) \<and> representable x"
proof -
  from assms have sum: "lit 0.3 * r + lit 0.59 * g + lit 0.11 * b = Num x"
    by (simp add: luminance_def)
  then have "representable x"
    by (rule plus_representable)
  moreover from sum obtain y z where "lit 0.3 * r + lit 0.59 * g = Num y" and "lit 0.11 * b = Num z"
    using plus_Num by blast
  moreover from this obtain y1 y2 where "lit 0.3 * r = Num y1" and "lit 0.59 * g = Num y2"
    using plus_Num by blast
  ultimately have "\<exists>vr. r = Num vr" and "\<exists>vg. g = Num vg" and "\<exists>vb. b = Num vb"
    unfolding lit_values by (blast dest: weighted_Num)+
  with \<open>representable x\<close> show ?thesis
    by blast
qed

text \<open>
  The blend at saturation 0: the luminance itself when the difference of the channel and
  the luminance is finite, and not-a-number otherwise.
\<close>

lemma blend_zero:
  assumes "\<And>x. gray = Num x \<Longrightarrow> representable x"
  shows "gray + (v - gray) * Num 0 = (if isFinite (v - gray) then gray else NaN)"
proof (cases "v - gray")
  case (Num d)
  then obtain y x where v: "v = Num y" and g: "gray = Num x"
    by (cases v; cases gray) simp_all
  from g have "representable x"
    by (rule assms)
  then have "roundDouble x = Num x"
    by (rule roundDouble_exact)
  with Num g show ?thesis
    by (simp add: roundDouble_def)
next
  case PInf
  then show ?thesis
    by (cases gray) simp_all
next
  case NInf
  then show ?thesis
    by (cases gray) simp_all
next
  case NaN
  then show ?thesis
    by (cases gray) simp_all
qed

lemma adjustSaturation_zero:
  "adjustSaturation r g b (Num 0) =
     (clamp (if isFinite (r - luminance (r, g, b)) then luminance (r, g, b) else NaN),
      clamp (if isFinite (g - luminance (r, g, b)) then luminance (r, g, b) else NaN),
      clamp (if isFinite (b - luminance (r, g, b)) then luminance (r, g, b) else NaN))"
proof -
  have rep: "luminance (r, g, b) = Num x \<Longrightarrow> representable x" for x
    using luminance_Num by blast
  have "adjustSaturation r g b (Num 0) =
     (clamp (luminance (r, g, b) + (r - luminance (r, g, b)) * Num 0),
      clamp (luminance (r, g, b) + (g - luminance (r, g, b)) * Num 0),
      clamp (luminance (r, g, b) + (b - luminance (r, g, b)) * Num 0))"
    by (simp add: adjustSaturation_def luminance_def Let_def)
  then show ?thesis
    by (simp only: blend_zero [OF rep])
qed

lemma filterPixel_adjustedPixel:
  "filterPixel fac preset rgb =
     (case adjustedPixel fac preset rgb of
        (adjustedR, adjustedG, adjustedB) \<Rightarrow>
          adjustSaturation adjustedR adjustedG adjustedB (saturation preset))"
  by (cases rgb) (simp add: filterPixel_def adjustedPixel_def)

lemma filterPixel_zero_saturation:
  assumes "saturation preset = Num 0" and "c < 3"
  shows "channel c (filterPixel fac preset rgb) =
     clamp (if isFinite (channel c (adjustedPixel fac preset rgb) - luminance (adjustedPixel fac preset rgb))
            then luminance (adjustedPixel fac preset rgb) else NaN)"
proof -
  obtain aR aG aB where a: "adjustedPixel fac preset rgb = (aR, aG, aB)"
    by (cases "adjustedPixel fac preset rgb")
  from assms(2) have "c = 0 \<or> c = 1 \<or> c = 2"
    by arith
  then show ?thesis
    by (auto simp: filterPixel_adjustedPixel a assms(1) adjustSaturation_zero)
qed

subsection \<open>Gray pixels under the neutral preset\<close>

lemma filterPixel_identity_gray:
  assumes "brightness preset = Num 1" and "warmth preset = Num 0"
    and "saturation preset = Num 1" and "0 \<le> V" and "V \<le> 255"
  shows "filterPixel (Num 1) preset (Num (real_of_int V), Num (real_of_int V), Num (real_of_int V)) =
     (Num (real_of_int V), Num (real_of_int V), Num (real_of_int V))"
proof -
  let ?v = "Num (real_of_int V)"
  from assms(4,5) have rV: "representable (real_of_int V)"
    by (intro representable_int) simp
  have "?v - Num (real_of_int 128) = Num (real_of_int (V - 128))"
    using assms(4,5) by (intro Num_int_exact) simp
  moreover have "Num (real_of_int 1) * Num (real_of_int (V - 128)) = Num (real_of_int (1 * (V - 128)))"
    using assms(4,5) by (intro Num_int_exact) simp
  moreover have "Num (real_of_int (V - 128)) + Num (real_of_int 128) = Num (real_of_int (V - 128 + 128))"
    using assms(4,5) by (intro Num_int_exact) simp
  ultimately have remap: "contrastRemap (Num 1) ?v = ?v"
    by (simp add: contrastRemap_def)
  have one: "roundDouble 1 = Num 1"
    using roundDouble_exact [OF representable_int, of 1] by simp
  have scale: "scaleChannels (Num 1) (Num 0) (?v, ?v, ?v) = (?v, ?v, ?v)"
    by (simp add: scaleChannels_def one roundDouble_exact [OF rV])
  from gray_luminance [OF assms(4,5)] obtain g
    where g: "lit 0.3 * ?v + lit 0.59 * ?v + lit 0.11 * ?v = Num g"
      and rg: "representable g" and lo: "real_of_int V / 2 \<le> g" and hi: "g \<le> 2 * real_of_int V"
    by blast
  have blend: "Num g + (?v - Num g) * Num 1 = ?v"
    using assms(4,5) rg lo hi by (rule gray_blend)
  from assms(4,5) have "clamp ?v = ?v"
    by (simp add: clamp_simps)
  then have "adjustSaturation ?v ?v ?v (Num 1) = (?v, ?v, ?v)"
    unfolding adjustSaturation_def g Let_def blend by simp
  with remap scale show ?thesis
    by (simp add: filterPixel_def assms(1-3))
qed

lemma gray_pixel_fixed:
  assumes "brightness preset = Num 1" and "warmth preset = Num 0"
    and "saturation preset = Num 1" and "factor (contrast preset) = Num 1"
    and "4 * k + 2 < length data"
    and "data ! (4 * k) = data ! (4 * k + 1)" and "data ! (4 * k + 1) = data ! (4 * k + 2)"
    and "c < 4" and "4 * k + c < length data"
  shows "applyFilters data preset ! (4 * k + c) = data ! (4 * k + c)"
proof (cases "c = 3")
  case True
  with assms(9) show ?thesis
    by (simp add: applyFilters_nth)
next
  case False
  define w where "w = data ! (4 * k)"
  define V where "V = int (unat w)"
  have V: "0 \<le> V" "V \<le> 255"
    using unat_byte_le [of w] unfolding V_def by linarith+
  have vV: "real (unat w) = real_of_int V"
    by (simp add: V_def)
  from assms(5-7) have px: "pixelAt data (4 * k) =
      (Num (real_of_int V), Num (real_of_int V), Num (real_of_int V))"
    unfolding vV [symmetric] by (simp add: pixelAt_def dataGet_def w_def del: of_nat_unat)
  have "filterPixel (factor (contrast preset)) preset (pixelAt data (4 * k)) =
      (Num (real_of_int V), Num (real_of_int V), Num (real_of_int V))"
    unfolding px assms(4) using assms(1-3) V by (rule filterPixel_identity_gray)
  moreover have "ToUint8Clamp (Num (real_of_int V)) = w"
    unfolding vV [symmetric] by (rule ToUint8Clamp_unat)
  moreover from False assms(8) have "c = 0 \<or> c = 1 \<or> c = 2"
    by arith
  then have "data ! (4 * k + c) = w"
    using assms(6,7) by (auto simp: w_def)
  ultimately show ?thesis
    using False assms(8,9) by (simp add: applyFilters_nth)
qed

subsection \<open>The clamp and the store together\<close>

lemma channel_spec_pipeline:
  "c < 3 \<Longrightarrow> channel c (spec_pipeline a b f preset rgb) =
     f (channel c (spec_pipeline a b (\<lambda>v. v) preset rgb))"
  by (cases rgb) (simp add: spec_pipeline_def Let_def)

lemma spec_pipeline_afterBlend:
  "spec_pipeline a b f preset rgb =
     (case spec_pipeline a b (\<lambda>v. v) preset rgb of (x, y, z) \<Rightarrow> (f x, f y, f z))"
  by (cases rgb) (simp add: spec_pipeline_def Let_def)

lemma ToUint8Clamp_clamp:
  "ToUint8Clamp (clamp v) =
     (case v of
        Num x \<Rightarrow> if x < 0 then 0 else if 255 < x then 255 else word_of_int (roundTiesToEven x)
      | PInf \<Rightarrow> 255
      | NInf \<Rightarrow> 0
      | NaN \<Rightarrow> 0)"
proof (cases v)
  case (Num x)
  have "roundTiesToEven 0 = 0" and "roundTiesToEven 255 = 255"
    using roundTiesToEven_of_int [of 0] roundTiesToEven_of_int [of 255] by simp_all
  with Num show ?thesis
    by (simp add: clamp_simps min_def max_def)
qed (simp_all add: clamp_simps roundTiesToEven_def)

lemma applyFilters_pixel:
  "applyFilters [r, g, b, a] preset =
     (case filterPixel (factor (contrast preset)) preset (pixelAt [r, g, b, a] 0) of
        (satR, satG, satB) \<Rightarrow> [ToUint8Clamp satR, ToUint8Clamp satG, ToUint8Clamp satB, a])"
proof -
  let ?sat = "filterPixel (factor (contrast preset)) preset (pixelAt [r, g, b, a] 0)"
  obtain x y z where sat: "?sat = (x, y, z)"
    by (cases ?sat)
  have "applyFilters [r, g, b, a] preset =
      applyLoop (factor (contrast preset)) preset (0 + 4) (storePixel [r, g, b, a] 0 ?sat)"
    unfolding applyFilters_def by (rule applyLoop_step) simp
  also have "\<dots> = storePixel [r, g, b, a] 0 ?sat"
    by (rule applyLoop_stop) (simp add: length_storePixel)
  finally show ?thesis
    by (simp add: sat storePixel_def dataSet_def)
qed

section \<open>The transform on concrete pixels\<close>

text \<open>
  The arithmetic is evaluated by rewriting: the binary exponent of a numeral by the
  length of its binary notation, the doubles of the literals of the source once.
\<close>

lemma bitlen_numeral:
  "bitlen 1 = 1"
  "bitlen (numeral Num.One) = 1"
  "bitlen (numeral (Num.Bit0 n)) = bitlen (numeral n) + 1"
  "bitlen (numeral (Num.Bit1 n)) = bitlen (numeral n) + 1"
proof -
  show "bitlen 1 = 1"
    by (subst compute_bitlen) simp
  then show "bitlen (numeral Num.One) = 1"
    by simp
  have "numeral (Num.Bit0 n) div (2::int) = numeral n"
    by simp
  moreover have "(0::int) < numeral (Num.Bit0 n)"
    by simp
  ultimately show "bitlen (numeral (Num.Bit0 n)) = bitlen (numeral n) + 1"
    by (subst compute_bitlen) (simp only: if_True)
  have "numeral (Num.Bit1 n) div (2::int) = numeral n"
    by simp
  moreover have "(0::int) < numeral (Num.Bit1 n)"
    by simp
  ultimately show "bitlen (numeral (Num.Bit1 n)) = bitlen (numeral n) + 1"
    by (subst compute_bitlen) (simp only: if_True)
qed

lemmas eval_defs =
  roundDouble_def quantum_def quantize_def exponent_def bitlen_numeral roundTiesToEven_def
  signedInf_def Let_value

lemma preset_values:
  "filterPresets ! 0 = \<lparr>name = ''Auto Enhance'',
      description = ''Balanced boost for clarity and detail.'',
      brightness = Num (4728779608739021 / 4503599627370496),
      contrast = Num (2476979795053773 / 2251799813685248),
      warmth = Num (5764607523034235 / 288230376151711744),
      saturation = Num (607985949695017 / 562949953421312)\<rparr>"
  "filterPresets ! 1 = \<lparr>name = ''Golden Hour'',
      description = ''Warm cinematic tones with soft highlights.'',
      brightness = Num (607985949695017 / 562949953421312),
      contrast = Num (4728779608739021 / 4503599627370496),
      warmth = Num (5764607523034235 / 72057594037927936),
      saturation = Num (1261007895663739 / 1125899906842624)\<rparr>"
  "filterPresets ! 2 = \<lparr>name = ''Cool Studio'',
      description = ''Clean, modern tones with crisp shadows.'',
      brightness = Num (2296835809958953 / 2251799813685248),
      contrast = Num (1261007895663739 / 1125899906842624),
      warmth = Num (- (1080863910568919 / 18014398509481984)),
      saturation = Num (1170935903116329 / 1125899906842624)\<rparr>"
  "filterPresets ! 3 = \<lparr>name = ''Vintage Film'',
      description = ''Muted palette with gentle contrast.'',
      brightness = Num (4638707616191611 / 4503599627370496),
      contrast = Num (8286623314361713 / 9007199254740992),
      warmth = Num (1080863910568919 / 36028797018963968),
      saturation = Num (8106479329266893 / 9007199254740992)\<rparr>"
  by (simp_all add: filterPresets_def lit_def eval_defs)

lemma lit_values_normal:
  "lit (3 / 10) = Num (5404319552844595 / 18014398509481984)"
  "lit (59 / 100) = Num (5314247560297185 / 9007199254740992)"
  "lit (11 / 100) = Num (7926335344172073 / 72057594037927936)"
  using lit_values by simp_all

lemmas pixel_defs =
  filterPixel_def pixelAt_def dataGet_def factor_def contrastRemap_def scaleChannels_def
  adjustSaturation_def clamp_def adjustedPixel_def luminance_def
  spec_pipeline_def preset_values lit_values_normal eval_defs

text \<open>
  Four pixels under presets of the catalog: the mid-gray pixel under Vintage Film; a pixel
  whose blue blend under Cool Studio is the double next above 34.5; and two pixels whose
  blend, before any clamp, leaves \<open>[0, 255]\<close> above and below.
\<close>

lemma vintage_mid_gray:
  "filterPixel (factor (contrast (filterPresets ! 3))) (filterPresets ! 3)
     (pixelAt [128, 128, 128, 255] 0) =
   (Num (595358982239777 / 4398046511104), Num (1160318666994803 / 8796093022208),
    Num (4519677478040209 / 35184372088832))"
  by (simp add: pixel_defs)

lemma cool_studio_tie:
  "filterPixel (factor (contrast (filterPresets ! 2))) (filterPresets ! 2)
     (pixelAt [139, 192, 134, 255] 0) =
   (Num 0, Num 0, Num (303465209266177 / 8796093022208))"
  by (simp add: pixel_defs)

lemma vintage_unclamped:
  "spec_pipeline (\<lambda>v. v) (\<lambda>v. v) (\<lambda>v. v) (filterPresets ! 3) (pixelAt [140, 128, 128, 255] 0) =
   (Num (6622755881014333 / 17592186044416), Num (2457454106636549 / 17592186044416),
    Num (2396655511667047 / 17592186044416))"
  by (simp add: pixel_defs)

lemma auto_enhance_unclamped:
  "spec_pipeline (\<lambda>v. v) (\<lambda>v. v) (\<lambda>v. v) (filterPresets ! 0) (pixelAt [200, 150, 100, 255] 0) =
   (Num (- (522208917601065 / 274877906944)), Num (- (7544034136411607 / 17592186044416)),
    Num (4343003260185131 / 4398046511104))"
  by (simp add: pixel_defs)

text \<open>
  The factor is 1 at contrast 0. At the double nearest to \<open>259 / 255\<close> the product
  \<open>contrast * 255\<close> rounds to 259, the divisor is zero and the factor is infinite.
\<close>

lemma factor_zero: "factor (Num 0) = Num 1"
  by (simp add: factor_def eval_defs)

lemma factor_divides_by_zero:
  "lit (259 / 255) = Num (71472567615745 / 70368744177664)"
  "factor (lit (259 / 255)) = PInf"
  by (simp_all add: factor_def lit_def eval_defs)

lemma factor_at_one: "factor (Num 1) = Num 129.5"
  by (simp add: factor_def num_defs)

text \<open>
  At factor 129.5 the contrast remap of a byte is exact: \<open>259 * (v - 128) / 2 + 128\<close> has
  fewer than 53 bits.
\<close>

lemma contrastRemap_at_one_byte:
  "contrastRemap (Num 129.5) (Num (real (unat (w :: u8)))) =
     Num (129.5 * (real (unat w) - 128) + 128)"
proof -
  define V where "V = int (unat w)"
  have V: "0 \<le> V" "V \<le> 255"
    using unat_byte_le [of w] unfolding V_def by linarith+
  have vV: "real (unat w) = real_of_int V"
    by (simp add: V_def)
  have "Num (real_of_int V) - Num (real_of_int 128) = Num (real_of_int (V - 128))"
    using V by (intro Num_int_exact) simp
  then have 1: "Num (real_of_int V) - Num 128 = Num (real_of_int (V - 128))"
    by simp
  from V have "\<bar>259 * (V - 128)\<bar> < 2 ^ 53"
    by simp
  then have "representable (real_of_int (259 * (V - 128)) / 2)"
    by (rule representable_half)
  moreover have "real_of_int (259 * (V - 128)) / 2 = 129.5 * real_of_int (V - 128)"
    by simp
  ultimately have "representable (129.5 * real_of_int (V - 128))"
    by (simp only:)
  then have 2: "roundDouble (129.5 * real_of_int (V - 128)) = Num (129.5 * real_of_int (V - 128))"
    by (rule roundDouble_exact)
  from V have "\<bar>259 * (V - 128) + 256\<bar> < 2 ^ 53"
    by simp
  then have "representable (real_of_int (259 * (V - 128) + 256) / 2)"
    by (rule representable_half)
  moreover have "real_of_int (259 * (V - 128) + 256) / 2 = 129.5 * real_of_int (V - 128) + 128"
    by (simp add: field_simps)
  ultimately have "representable (129.5 * real_of_int (V - 128) + 128)"
    by (simp only:)
  then have 3: "roundDouble (129.5 * real_of_int (V - 128) + 128) =
      Num (129.5 * real_of_int (V - 128) + 128)"
    by (rule roundDouble_exact)
  have "contrastRemap (Num 129.5) (Num (real_of_int V)) = Num (129.5 * real_of_int (V - 128) + 128)"
    unfolding contrastRemap_def 1 times_jsnum.simps 2 plus_jsnum.simps 3 ..
  then show ?thesis
    by (simp add: V_def)
qed

text \<open>
  The luminance weights are not doubles whose sum is 1: the luminance of the gray value
  128 is the double next below 128. And an infinite saturation gives 255, not
  not-a-number, for a gray value whose luminance is not the value itself.
\<close>

lemma adjustSaturation_rounds:
  "adjustSaturation (Num 128) (Num 128) (Num 128) (Num 0) =
     (Num (9007199254740991 / 70368744177664), Num (9007199254740991 / 70368744177664),
      Num (9007199254740991 / 70368744177664))"
  "adjustSaturation (Num 5) (Num 5) (Num 5) PInf = (Num 255, Num 255, Num 255)"
  by (simp_all add: adjustSaturation_def clamp_def lit_values_normal eval_defs)

text \<open>
  Two pixels under a preset of saturation 0, factor 1, brightness 1 and warmth 0: their
  adjusted values, and the luminance of these. The luminance of the second is the double
  next below 27.5.
\<close>

lemma Gray_adjusted:
  "adjustedPixel (factor (Num 0))
      \<lparr>name = ''Gray'', description = [], brightness = Num 1, contrast = Num 0,
       warmth = Num 0, saturation = Num 0\<rparr> (pixelAt [130, 120, 140, 7] 0) =
     (Num 130, Num 120, Num 140)"
  "adjustedPixel (factor (Num 0))
      \<lparr>name = ''Gray'', description = [], brightness = Num 1, contrast = Num 0,
       warmth = Num 0, saturation = Num 0\<rparr> (pixelAt [0, 44, 14, 255] 0) =
     (Num 0, Num 44, Num 14)"
  by (simp_all add: adjustedPixel_def pixelAt_def dataGet_def contrastRemap_def scaleChannels_def
      factor_zero eval_defs)

lemma Gray_luminance:
  "luminance (Num 130, Num 120, Num 140) = Num (8810166771043533 / 70368744177664)"
  "luminance (Num 0, Num 44, Num 14) = Num (7740561859543039 / 281474976710656)"
  by (simp_all add: luminance_def lit_values_normal eval_defs)

lemma Gray_finite:
  "isFinite (channel 0 (Num 0, Num 44, Num 14) - Num (7740561859543039 / 281474976710656))"
  "isFinite (channel 1 (Num 0, Num 44, Num 14) - Num (7740561859543039 / 281474976710656))"
  "isFinite (channel 2 (Num 0, Num 44, Num 14) - Num (7740561859543039 / 281474976710656))"
  by (simp_all add: eval_defs)

text \<open>
  A pixel whose green blend is the double \<open>193.49999999999977\<close>, and two pixels whose blend
  is half an integer exactly.
\<close>

lemma half_brightness_tie:
  "filterPixel (factor (Num 1))
      \<lparr>name = ''Half'', description = [], brightness = Num (1 / 2), contrast = Num 1,
       warmth = Num 0, saturation = Num 1\<rparr> (pixelAt [0, 130, 172, 255] 0) =
     (Num 0, Num (851021999898623 / 4398046511104), Num 255)"
  by (simp add: factor_at_one filterPixel_def pixelAt_def dataGet_def contrastRemap_def
      scaleChannels_def adjustSaturation_def clamp_def lit_values_normal eval_defs)

lemma exact_ties:
  "filterPixel (factor (Num 0))
      \<lparr>name = ''Bright'', description = [], brightness = Num (5 / 2), contrast = Num 0,
       warmth = Num 0, saturation = Num 1\<rparr> (pixelAt [1, 1, 1, 255, 3, 3, 3, 9] 0) =
     (Num (5 / 2), Num (5 / 2), Num (5 / 2))"
  "filterPixel (factor (Num 0))
      \<lparr>name = ''Bright'', description = [], brightness = Num (5 / 2), contrast = Num 0,
       warmth = Num 0, saturation = Num 1\<rparr> (pixelAt [1, 1, 1, 255, 3, 3, 3, 9] 4) =
     (Num (15 / 2), Num (15 / 2), Num (15 / 2))"
  by (simp_all add: factor_zero filterPixel_def pixelAt_def dataGet_def contrastRemap_def
      scaleChannels_def adjustSaturation_def clamp_def lit_values_normal eval_defs)

text \<open>The integers that the store rounds these values to.\<close>

lemma round_values:
  "roundTiesToEven (595358982239777 / 4398046511104) = 135"
  "roundTiesToEven (303465209266177 / 8796093022208) = 35"
  "roundTiesToEven (8810166771043533 / 70368744177664) = 125"
  "roundTiesToEven (7740561859543039 / 281474976710656) = 27"
  "roundTiesToEven (851021999898623 / 4398046511104) = 193"
  "roundTiesToEven (2457454106636549 / 17592186044416) = 140"
  "roundTiesToEven (5 / 2) = 2"
  "roundTiesToEven (15 / 2) = 8"
  "roundTiesToEven 0 = 0"
  "roundTiesToEven 255 = 255"
  by (simp_all add: roundTiesToEven_def)

section \<open>Claim C1: the three steps of the transform\<close>

text \<open>
  Claim C1, as the specification states it: for every pixel and every preset the output
  channels are the values \<open>clamp (gray + (channel'' - gray) * saturation)\<close> of the three
  steps. The byte found in the buffer is not that value when the value is not an integer:
  for the mid-gray pixel and the preset Vintage Film the red value of the three steps is
  the double \<open>135.36896000000002\<close>, and the byte stored is 135.
\<close>

theorem C1_output_is_rounded:
  "channel 0 (spec_transform (filterPresets ! 3) (pixelAt [128, 128, 128, 255] 0))
     = Num (595358982239777 / 4398046511104) \<and>
   applyFilters [128, 128, 128, 255] (filterPresets ! 3) ! 0 = 135 \<and>
   Num (real (unat (applyFilters [128, 128, 128, 255] (filterPresets ! 3) ! 0))) \<noteq>
     channel 0 (spec_transform (filterPresets ! 3) (pixelAt [128, 128, 128, 255] 0))"
  using vintage_mid_gray
  by (simp add: filterPixel_spec_transform [symmetric] applyFilters_pixel round_values)

text \<open>
  Claim C1, amended: for every pixel of the buffer and every preset, the three numbers the
  transform computes are those of the specification's steps, in its order, each operation
  rounded to a double: the contrast remap of each channel, the scaling by
  \<open>brightness + warmth\<close>, \<open>brightness\<close> and \<open>brightness - warmth\<close>, and the clamped
  saturation blend around the luminance of the scaled values (not of the original pixel);
  and the byte written for a channel is that number as the byte array converts it on
  store (not-a-number to 0, any other value to the nearest integer, a tie to the even
  one). For Cool Studio and the pixel (139, 192, 134) the blue blend is the double next
  above 34.5, and the byte is 35.
\<close>

theorem C1_pipeline_then_store:
  assumes "c < 3" and "4 * k + c < length data"
  shows "filterPixel (factor (contrast preset)) preset (pixelAt data (4 * k)) =
       spec_transform preset (pixelAt data (4 * k)) \<and>
     applyFilters data preset ! (4 * k + c) =
       ToUint8Clamp (channel c (spec_transform preset (pixelAt data (4 * k))))"
  using assms by (simp add: applyFilters_nth filterPixel_spec_transform)

theorem C1_pipeline_then_store_witness:
  "filterPixel (factor (contrast (filterPresets ! 2))) (filterPresets ! 2)
       (pixelAt [139, 192, 134, 255] 0) =
     spec_transform (filterPresets ! 2) (pixelAt [139, 192, 134, 255] 0) \<and>
   channel 2 (spec_transform (filterPresets ! 2) (pixelAt [139, 192, 134, 255] 0)) =
     Num (303465209266177 / 8796093022208) \<and>
   applyFilters [139, 192, 134, 255] (filterPresets ! 2) ! 2 = 35"
proof -
  have "(2::nat) < 3" and "4 * 0 + 2 < length [139, 192, 134, 255 :: u8]"
    by simp_all
  note C1 = C1_pipeline_then_store [OF this, of "filterPresets ! 2"]
  from C1 have eq: "filterPixel (factor (contrast (filterPresets ! 2))) (filterPresets ! 2)
       (pixelAt [139, 192, 134, 255] (4 * 0)) =
     spec_transform (filterPresets ! 2) (pixelAt [139, 192, 134, 255] (4 * 0))"
    by (rule conjunct1)
  from C1 have byte: "applyFilters [139, 192, 134, 255] (filterPresets ! 2) ! (4 * 0 + 2) =
       ToUint8Clamp (channel 2 (spec_transform (filterPresets ! 2)
         (pixelAt [139, 192, 134, 255] (4 * 0))))"
    by (rule conjunct2)
  from eq have eq0: "spec_transform (filterPresets ! 2) (pixelAt [139, 192, 134, 255] 0) =
      (Num 0, Num 0, Num (303465209266177 / 8796093022208))"
    by (simp add: cool_studio_tie)
  from byte have "applyFilters [139, 192, 134, 255] (filterPresets ! 2) ! 2 =
       ToUint8Clamp (channel 2 (spec_transform (filterPresets ! 2)
         (pixelAt [139, 192, 134, 255] 0)))"
    by (simp only: mult_zero_right add_0)
  then have "applyFilters [139, 192, 134, 255] (filterPresets ! 2) ! 2 = 35"
    by (simp add: eq0 round_values)
  with eq eq0 show ?thesis
    by simp
qed

section \<open>Claim C2: the range of the output and the place of the clamp\<close>

text \<open>
  The place of the clamp matters: clamping after the contrast remap as well, or after the
  scaling as well, gives other values than the program's single clamp does.
\<close>

lemma clamp_after_contrast_differs:
  "spec_pipeline clamp (\<lambda>v. v) clamp (filterPresets ! 3) (pixelAt [140, 128, 128, 255] 0) =
     (Num 255, Num (4783370273097169 / 35184372088832), Num (2330886541579083 / 17592186044416))"
  "spec_pipeline (\<lambda>v. v) (\<lambda>v. v) clamp (filterPresets ! 3) (pixelAt [140, 128, 128, 255] 0) =
     (Num 255, Num (2457454106636549 / 17592186044416), Num (2396655511667047 / 17592186044416))"
  "spec_pipeline clamp (\<lambda>v. v) clamp (filterPresets ! 3) (pixelAt [140, 128, 128, 255] 0) \<noteq>
   spec_pipeline (\<lambda>v. v) (\<lambda>v. v) clamp (filterPresets ! 3) (pixelAt [140, 128, 128, 255] 0)"
proof -
  show 1: "spec_pipeline clamp (\<lambda>v. v) clamp (filterPresets ! 3) (pixelAt [140, 128, 128, 255] 0) =
     (Num 255, Num (4783370273097169 / 35184372088832), Num (2330886541579083 / 17592186044416))"
    by (simp add: pixel_defs)
  show 2: "spec_pipeline (\<lambda>v. v) (\<lambda>v. v) clamp (filterPresets ! 3) (pixelAt [140, 128, 128, 255] 0) =
     (Num 255, Num (2457454106636549 / 17592186044416), Num (2396655511667047 / 17592186044416))"
    by (subst spec_pipeline_afterBlend) (simp add: vintage_unclamped clamp_simps)
  show "spec_pipeline clamp (\<lambda>v. v) clamp (filterPresets ! 3) (pixelAt [140, 128, 128, 255] 0) \<noteq>
   spec_pipeline (\<lambda>v. v) (\<lambda>v. v) clamp (filterPresets ! 3) (pixelAt [140, 128, 128, 255] 0)"
    unfolding 1 2 by simp
qed

lemma clamp_after_scaling_differs:
  "spec_pipeline (\<lambda>v. v) clamp clamp (filterPresets ! 3) (pixelAt [140, 128, 128, 255] 0) =
     (Num (4333598593061445 / 17592186044416), Num (4767220646308395 / 35184372088832),
      Num (290351466023087 / 2199023255552))"
  "spec_pipeline (\<lambda>v. v) clamp clamp (filterPresets ! 3) (pixelAt [140, 128, 128, 255] 0) \<noteq>
   spec_pipeline (\<lambda>v. v) (\<lambda>v. v) clamp (filterPresets ! 3) (pixelAt [140, 128, 128, 255] 0)"
proof -
  show 1: "spec_pipeline (\<lambda>v. v) clamp clamp (filterPresets ! 3) (pixelAt [140, 128, 128, 255] 0) =
     (Num (4333598593061445 / 17592186044416), Num (4767220646308395 / 35184372088832),
      Num (290351466023087 / 2199023255552))"
    by (simp add: pixel_defs)
  show "spec_pipeline (\<lambda>v. v) clamp clamp (filterPresets ! 3) (pixelAt [140, 128, 128, 255] 0) \<noteq>
   spec_pipeline (\<lambda>v. v) (\<lambda>v. v) clamp (filterPresets ! 3) (pixelAt [140, 128, 128, 255] 0)"
    unfolding 1 clamp_after_contrast_differs(2) by simp
qed

text \<open>
  A brightness of \<open>1e308\<close> makes the scaled values of a white pixel infinite; the luminance
  is infinite, the difference of channel and luminance is not-a-number, and so is the
  blend: the clamp leaves it, and the store writes 0.
\<close>

lemma overflow_is_stored_as_zero:
  "filterPixel (factor (Num 0))
      \<lparr>name = ''Glare'', description = [], brightness = lit (10 ^ 308), contrast = Num 0,
       warmth = Num 0, saturation = Num 1\<rparr> (pixelAt [255, 255, 255, 255] 0) = (NaN, NaN, NaN)"
  "applyFilters [255, 255, 255, 255]
      \<lparr>name = ''Glare'', description = [], brightness = lit (10 ^ 308), contrast = Num 0,
       warmth = Num 0, saturation = Num 1\<rparr> = [0, 0, 0, 255]"
proof -
  have contrast_eq: "contrast \<lparr>name = ''Glare'', description = [], brightness = lit (10 ^ 308),
      contrast = Num 0, warmth = Num 0, saturation = Num 1\<rparr> = Num 0"
    by simp
  show 1: "filterPixel (factor (Num 0))
      \<lparr>name = ''Glare'', description = [], brightness = lit (10 ^ 308), contrast = Num 0,
       warmth = Num 0, saturation = Num 1\<rparr> (pixelAt [255, 255, 255, 255] 0) = (NaN, NaN, NaN)"
    by (simp add: factor_zero lit_def filterPixel_def pixelAt_def dataGet_def contrastRemap_def
        scaleChannels_def adjustSaturation_def clamp_def lit_values_normal eval_defs)
  show "applyFilters [255, 255, 255, 255]
      \<lparr>name = ''Glare'', description = [], brightness = lit (10 ^ 308), contrast = Num 0,
       warmth = Num 0, saturation = Num 1\<rparr> = [0, 0, 0, 255]"
    unfolding applyFilters_pixel contrast_eq 1 by (simp add: round_values)
qed

text \<open>
  Claim C2: for every buffer and preset, every colour byte written back lies in
  \<open>[0, 255]\<close>, and the clamp is applied once, after the saturation blend, and not after the
  contrast remap or the scaling. With the blend computed by the three steps without any
  clamp: the byte is 0 when the blend is below 0, 255 when it is above 255, the nearest
  integer (a tie to the even one) when it lies between, and 0 when it is not-a-number;
  the number handed to the store is the blend with values below 0 replaced by 0 and
  values above 255 by 255, so it is not-a-number or lies in \<open>[0, 255]\<close>.
\<close>

theorem C2_range_single_clamp:
  assumes "c < 3" and "4 * k + c < length data"
  shows "applyFilters data preset ! (4 * k + c) =
       (case channel c (spec_pipeline (\<lambda>v. v) (\<lambda>v. v) (\<lambda>v. v) preset (pixelAt data (4 * k))) of
          Num x \<Rightarrow> if x < 0 then 0 else if 255 < x then 255 else word_of_int (roundTiesToEven x)
        | PInf \<Rightarrow> 255
        | NInf \<Rightarrow> 0
        | NaN \<Rightarrow> 0) \<and>
     channel c (filterPixel (factor (contrast preset)) preset (pixelAt data (4 * k))) =
       spec_clamp (channel c
         (spec_pipeline (\<lambda>v. v) (\<lambda>v. v) (\<lambda>v. v) preset (pixelAt data (4 * k)))) \<and>
     (channel c (filterPixel (factor (contrast preset)) preset (pixelAt data (4 * k))) = NaN \<or>
      (\<exists>x. channel c (filterPixel (factor (contrast preset)) preset (pixelAt data (4 * k))) = Num x
           \<and> 0 \<le> x \<and> x \<le> 255)) \<and>
     unat (applyFilters data preset ! (4 * k + c)) \<le> 255"
proof -
  let ?blend = "channel c (spec_pipeline (\<lambda>v. v) (\<lambda>v. v) (\<lambda>v. v) preset (pixelAt data (4 * k)))"
  let ?written = "channel c (filterPixel (factor (contrast preset)) preset (pixelAt data (4 * k)))"
  have written: "?written = clamp ?blend"
    using assms(1) by (simp add: filterPixel_spec_pipeline channel_spec_pipeline [of c _ _ clamp])
  from assms have "applyFilters data preset ! (4 * k + c) = ToUint8Clamp (clamp ?blend)"
    by (simp add: applyFilters_nth written)
  then have 1: "applyFilters data preset ! (4 * k + c) =
       (case ?blend of
          Num x \<Rightarrow> if x < 0 then 0 else if 255 < x then 255 else word_of_int (roundTiesToEven x)
        | PInf \<Rightarrow> 255
        | NInf \<Rightarrow> 0
        | NaN \<Rightarrow> 0)"
    by (simp only: ToUint8Clamp_clamp)
  have 2: "?written = spec_clamp ?blend"
    by (simp only: written clamp_eq_spec_clamp)
  have 3: "?written = NaN \<or> (\<exists>x. ?written = Num x \<and> 0 \<le> x \<and> x \<le> 255)"
    unfolding written by (rule clamp_range)
  have 4: "unat (applyFilters data preset ! (4 * k + c)) \<le> 255"
    by (rule unat_byte_le)
  from 1 2 3 4 show ?thesis
    by (intro conjI)
qed

theorem C2_range_single_clamp_witness:
  "channel 0 (spec_pipeline (\<lambda>v. v) (\<lambda>v. v) (\<lambda>v. v) (filterPresets ! 3)
      (pixelAt [140, 128, 128, 255] 0)) = Num (6622755881014333 / 17592186044416) \<and>
   channel 0 (filterPixel (factor (contrast (filterPresets ! 3))) (filterPresets ! 3)
      (pixelAt [140, 128, 128, 255] 0)) = Num 255 \<and>
   applyFilters [140, 128, 128, 255] (filterPresets ! 3) ! 0 = 255 \<and>
   channel 0 (spec_pipeline (\<lambda>v. v) (\<lambda>v. v) (\<lambda>v. v) (filterPresets ! 0)
      (pixelAt [200, 150, 100, 255] 0)) = Num (- (522208917601065 / 274877906944)) \<and>
   channel 0 (filterPixel (factor (contrast (filterPresets ! 0))) (filterPresets ! 0)
      (pixelAt [200, 150, 100, 255] 0)) = Num 0 \<and>
   applyFilters [200, 150, 100, 255] (filterPresets ! 0) ! 0 = 0"
proof -
  let ?hi = "[140, 128, 128, 255 :: u8]"
  let ?lo = "[200, 150, 100, 255 :: u8]"
  have hi: "channel 0 (spec_pipeline (\<lambda>v. v) (\<lambda>v. v) (\<lambda>v. v) (filterPresets ! 3)
      (pixelAt ?hi (4 * 0))) = Num (6622755881014333 / 17592186044416)"
    by (simp add: vintage_unclamped)
  have lo: "channel 0 (spec_pipeline (\<lambda>v. v) (\<lambda>v. v) (\<lambda>v. v) (filterPresets ! 0)
      (pixelAt ?lo (4 * 0))) = Num (- (522208917601065 / 274877906944))"
    by (simp add: auto_enhance_unclamped)
  have "(0::nat) < 3" and "4 * 0 + 0 < length ?hi"
    by simp_all
  note A = C2_range_single_clamp [OF this, of "filterPresets ! 3"]
  have "(0::nat) < 3" and "4 * 0 + 0 < length ?lo"
    by simp_all
  note B = C2_range_single_clamp [OF this, of "filterPresets ! 0"]
  from A have "applyFilters ?hi (filterPresets ! 3) ! (4 * 0 + 0) =
       (case channel 0 (spec_pipeline (\<lambda>v. v) (\<lambda>v. v) (\<lambda>v. v) (filterPresets ! 3)
              (pixelAt ?hi (4 * 0))) of
          Num x \<Rightarrow> if x < 0 then 0 else if 255 < x then 255 else word_of_int (roundTiesToEven x)
        | PInf \<Rightarrow> 255
        | NInf \<Rightarrow> 0
        | NaN \<Rightarrow> 0)"
    by (rule conjunct1)
  then have A1: "applyFilters ?hi (filterPresets ! 3) ! 0 = 255"
    unfolding hi by simp
  from A have "channel 0 (filterPixel (factor (contrast (filterPresets ! 3))) (filterPresets ! 3)
        (pixelAt ?hi (4 * 0))) =
      spec_clamp (channel 0 (spec_pipeline (\<lambda>v. v) (\<lambda>v. v) (\<lambda>v. v) (filterPresets ! 3)
        (pixelAt ?hi (4 * 0))))"
    by (rule conjunct2 [THEN conjunct1])
  then have A2: "channel 0 (filterPixel (factor (contrast (filterPresets ! 3))) (filterPresets ! 3)
        (pixelAt ?hi 0)) = Num 255"
    unfolding hi by simp
  from B have "applyFilters ?lo (filterPresets ! 0) ! (4 * 0 + 0) =
       (case channel 0 (spec_pipeline (\<lambda>v. v) (\<lambda>v. v) (\<lambda>v. v) (filterPresets ! 0)
              (pixelAt ?lo (4 * 0))) of
          Num x \<Rightarrow> if x < 0 then 0 else if 255 < x then 255 else word_of_int (roundTiesToEven x)
        | PInf \<Rightarrow> 255
        | NInf \<Rightarrow> 0
        | NaN \<Rightarrow> 0)"
    by (rule conjunct1)
  then have B1: "applyFilters ?lo (filterPresets ! 0) ! 0 = 0"
    unfolding lo by simp
  from B have "channel 0 (filterPixel (factor (contrast (filterPresets ! 0))) (filterPresets ! 0)
        (pixelAt ?lo (4 * 0))) =
      spec_clamp (channel 0 (spec_pipeline (\<lambda>v. v) (\<lambda>v. v) (\<lambda>v. v) (filterPresets ! 0)
        (pixelAt ?lo (4 * 0))))"
    by (rule conjunct2 [THEN conjunct1])
  then have B2: "channel 0 (filterPixel (factor (contrast (filterPresets ! 0))) (filterPresets ! 0)
        (pixelAt ?lo 0)) = Num 0"
    unfolding lo by simp
  from hi lo A1 A2 B1 B2 show ?thesis
    by simp
qed

section \<open>Claim C3: the alpha channel\<close>

text \<open>
  Claim C3: the transform neither writes nor reads alpha. The buffer keeps its length,
  every byte at an offset \<open>4 * k + 3\<close> is after the call what it was before, and two
  buffers that differ only in alpha bytes give outputs that differ only in alpha bytes,
  so no colour byte of the output depends on an alpha byte.
\<close>

theorem C3_alpha_untouched:
  "length (applyFilters data preset) = length data \<and>
   (\<forall>k. 4 * k + 3 < length data \<longrightarrow>
      applyFilters data preset ! (4 * k + 3) = data ! (4 * k + 3)) \<and>
   (\<forall>data'. agreeOffAlpha data data' \<longrightarrow>
      agreeOffAlpha (applyFilters data preset) (applyFilters data' preset))"
proof (intro conjI allI impI)
  show "length (applyFilters data preset) = length data"
    by (rule length_applyFilters)
next
  fix k
  assume "4 * k + 3 < length data"
  then show "applyFilters data preset ! (4 * k + 3) = data ! (4 * k + 3)"
    by (simp add: applyFilters_nth)
next
  fix data'
  assume agree: "agreeOffAlpha data data'"
  then have len: "length data' = length data"
    by (simp add: agreeOffAlpha_def)
  have "j mod 4 = 3 \<or> applyFilters data' preset ! j = applyFilters data preset ! j"
    if j: "j \<in> set [0..<length data]" for j
  proof (cases "j mod 4 = 3")
    case True
    then show ?thesis ..
  next
    case False
    define k where "k = j div 4"
    define c where "c = j mod 4"
    have idx: "j = 4 * k + c" and c4: "c < 4"
      by (simp_all add: k_def c_def)
    from False have c3: "c \<noteq> 3"
      by (simp add: c_def)
    from j have jlen: "j < length data"
      by simp
    from agree have "pixelAt data' (4 * k) = pixelAt data (4 * k)"
      by (rule agreeOffAlpha_pixelAt)
    with jlen len c4 c3 have "applyFilters data' preset ! j = applyFilters data preset ! j"
      unfolding idx by (simp add: applyFilters_nth)
    then show ?thesis ..
  qed
  then have "list_all (\<lambda>j. j mod 4 = 3 \<or>
      applyFilters data' preset ! j = applyFilters data preset ! j) [0..<length data]"
    unfolding list_all_iff by (rule ballI)
  with len show "agreeOffAlpha (applyFilters data preset) (applyFilters data' preset)"
    by (simp add: agreeOffAlpha_def length_applyFilters)
qed

theorem C3_alpha_untouched_witness:
  "length (applyFilters [128, 128, 128, 255] (filterPresets ! 3)) = 4 \<and>
   applyFilters [128, 128, 128, 255] (filterPresets ! 3) ! 3 = 255 \<and>
   agreeOffAlpha (applyFilters [128, 128, 128, 255] (filterPresets ! 3))
     (applyFilters [128, 128, 128, 7] (filterPresets ! 3))"
proof -
  note C3 = C3_alpha_untouched [of "[128, 128, 128, 255]" "filterPresets ! 3"]
  have agree: "agreeOffAlpha [128, 128, 128, 255] [128, 128, 128, 7]"
    by (simp add: agreeOffAlpha_def upt_rec)
  from C3 have "length (applyFilters [128, 128, 128, 255] (filterPresets ! 3)) = 4"
    by simp
  moreover from C3 have "4 * 0 + 3 < length [128, 128, 128, 255 :: u8] \<longrightarrow>
      applyFilters [128, 128, 128, 255] (filterPresets ! 3) ! (4 * 0 + 3) =
      [128, 128, 128, 255] ! (4 * 0 + 3)"
    by blast
  then have "applyFilters [128, 128, 128, 255] (filterPresets ! 3) ! 3 = 255"
    by simp
  moreover from C3 agree
  have "agreeOffAlpha (applyFilters [128, 128, 128, 255] (filterPresets ! 3))
     (applyFilters [128, 128, 128, 7] (filterPresets ! 3))"
    by blast
  ultimately show ?thesis
    by blast
qed

section \<open>Claim C4: the contrast factor at contrast 1.0\<close>

text \<open>
  Claim C4, as the specification states it: at \<open>contrast = 1.0\<close> the formula of line 63
  gives \<open>(259 * 510) / (255 * 4)\<close>, which is about 133.9. The quotient is wrong:
  \<open>259 * 510 = 132090\<close> and \<open>255 * 4 = 1020\<close>, and \<open>132090 / 1020\<close> is 129.5, more than
  4 away from 133.9.
\<close>

theorem C4_factor_not_133_9: "\<not> approximately 1 133.9 (factor (Num 1))"
  by (simp add: factor_at_one)

text \<open>
  Claim C4, amended: at \<open>contrast = 1.0\<close> the factor is \<open>(259 * 510) / (255 * 4)\<close>, which is
  129.5 exactly, and the contrast remap with it is not a no-op: it sends a channel value
  \<open>v\<close> to \<open>129.5 * (v - 128) + 128\<close>, computed in doubles, which for every byte \<open>v\<close> is that
  number exactly; so the value 0 goes to \<open>-16448\<close> and the value 255 to \<open>16574.5\<close>.
\<close>

theorem C4_factor_at_one:
  "factor (Num 1) = Num ((259 * 510) / (255 * 4)) \<and>
   factor (Num 1) = Num 129.5 \<and>
   contrastRemap (factor (Num 1)) v = Num 129.5 * (v - Num 128) + Num 128 \<and>
   contrastRemap (factor (Num 1)) (Num (real (unat (w :: u8)))) =
     Num (129.5 * (real (unat w) - 128) + 128) \<and>
   contrastRemap (factor (Num 1)) (Num 0) = Num (- 16448) \<and>
   contrastRemap (factor (Num 1)) (Num 255) = Num 16574.5"
proof -
  have "contrastRemap (Num 129.5) (Num (real (unat (0 :: u8)))) = Num (129.5 * (real (unat (0 :: u8)) - 128) + 128)"
    and "contrastRemap (Num 129.5) (Num (real (unat (255 :: u8)))) = Num (129.5 * (real (unat (255 :: u8)) - 128) + 128)"
    by (rule contrastRemap_at_one_byte)+
  then have "contrastRemap (Num 129.5) (Num 0) = Num (- 16448)"
    and "contrastRemap (Num 129.5) (Num 255) = Num 16574.5"
    by simp_all
  moreover have "contrastRemap (Num 129.5) v = Num 129.5 * (v - Num 128) + Num 128"
    by (simp only: contrastRemap_def)
  ultimately show ?thesis
    using contrastRemap_at_one_byte [of w] by (simp only: factor_at_one) simp
qed

section \<open>Claim C5: saturation 0\<close>

text \<open>
  Claim C5, as the specification states it: with saturation 0 the three output channels
  are each equal to the clamped luminance of the brightness and warmth adjusted values.
  For the pixel (130, 120, 140) under contrast 0 (factor 1), brightness 1 and warmth 0 the
  clamped luminance is the double nearest to 125.2, and the byte written is 125.
\<close>

theorem C5_output_is_rounded:
  "saturation \<lparr>name = ''Gray'', description = [], brightness = Num 1, contrast = Num 0,
       warmth = Num 0, saturation = Num 0\<rparr> = Num 0 \<and>
   clamp (luminance (adjustedPixel (factor (Num 0))
      \<lparr>name = ''Gray'', description = [], brightness = Num 1, contrast = Num 0,
       warmth = Num 0, saturation = Num 0\<rparr> (pixelAt [130, 120, 140, 7] 0))) =
     Num (8810166771043533 / 70368744177664) \<and>
   applyFilters [130, 120, 140, 7]
      \<lparr>name = ''Gray'', description = [], brightness = Num 1, contrast = Num 0,
       warmth = Num 0, saturation = Num 0\<rparr> ! 0 = 125 \<and>
   Num (real (unat (applyFilters [130, 120, 140, 7]
      \<lparr>name = ''Gray'', description = [], brightness = Num 1, contrast = Num 0,
       warmth = Num 0, saturation = Num 0\<rparr> ! 0))) \<noteq>
   clamp (luminance (adjustedPixel (factor (Num 0))
      \<lparr>name = ''Gray'', description = [], brightness = Num 1, contrast = Num 0,
       warmth = Num 0, saturation = Num 0\<rparr> (pixelAt [130, 120, 140, 7] 0)))"
proof -
  let ?p = "\<lparr>name = ''Gray'', description = [], brightness = Num 1, contrast = Num 0,
       warmth = Num 0, saturation = Num 0\<rparr>"
  let ?d = "[130, 120, 140, 7 :: u8]"
  have lum: "clamp (luminance (adjustedPixel (factor (Num 0)) ?p (pixelAt ?d 0))) =
      Num (8810166771043533 / 70368744177664)"
    by (simp add: Gray_adjusted Gray_luminance clamp_simps)
  have "channel 0 (filterPixel (factor (contrast ?p)) ?p (pixelAt ?d 0)) =
      Num (8810166771043533 / 70368744177664)"
    by (subst filterPixel_zero_saturation)
       (simp_all add: Gray_adjusted Gray_luminance clamp_simps eval_defs)
  moreover have "applyFilters ?d ?p ! (4 * 0 + 0) =
      ToUint8Clamp (channel 0 (filterPixel (factor (contrast ?p)) ?p (pixelAt ?d (4 * 0))))"
    by (subst applyFilters_nth) simp_all
  ultimately have byte: "applyFilters ?d ?p ! 0 = 125"
    by (simp add: round_values)
  show ?thesis
    unfolding lum byte by simp
qed

text \<open>
  Nor are the three bytes equal for every preset of saturation 0. With brightness
  \<open>6e305\<close> and warmth \<open>-1.3e306\<close> the adjusted values of the pixel (255, 255, 0) and their
  luminance are finite, but the difference of the red value and the luminance is not:
  it overflows to the negative infinity, its product with 0 is not-a-number, and the red
  byte is 0 where the green and the blue byte are 255.
\<close>

lemma zero_saturation_overflow:
  "adjustedPixel (factor (Num 0))
      \<lparr>name = ''Gray'', description = [], brightness = lit (6 * 10 ^ 305), contrast = Num 0,
       warmth = - lit (13 * 10 ^ 305), saturation = Num 0\<rparr> (pixelAt [255, 255, 0, 255] 0) =
     (Num (- 178500000000000019523157581760655634582858647498181027104778160814162655170182745841301190673496798592454426995646462526580220885375463204623482309282314906670531746044251952342519941083319531246690964982498814310841551614776638283377274789542932234971095749099423767025609848671029220245014929029070235631616),
      Num 152999999999999982519729763771079486961775188652636890647788244661438707245061054654625731395041842479967243265370663491198243429879049993006905035494664307331796383155105896522062698909948000767945602367347774849520928620484135785795199160393306677594848897261606243042735752419350046341010020933305746063360,
      Num 0)"
  "filterPixel (factor (Num 0))
      \<lparr>name = ''Gray'', description = [], brightness = lit (6 * 10 ^ 305), contrast = Num 0,
       warmth = - lit (13 * 10 ^ 305), saturation = Num 0\<rparr> (pixelAt [255, 255, 0, 255] 0) =
     (NaN, Num 255, Num 255)"
  "applyFilters [255, 255, 0, 255]
      \<lparr>name = ''Gray'', description = [], brightness = lit (6 * 10 ^ 305), contrast = Num 0,
       warmth = - lit (13 * 10 ^ 305), saturation = Num 0\<rparr> = [0, 255, 255, 255]"
proof -
  let ?p = "\<lparr>name = ''Gray'', description = [], brightness = lit (6 * 10 ^ 305), contrast = Num 0,
       warmth = - lit (13 * 10 ^ 305), saturation = Num 0\<rparr>"
  have contrast_eq: "contrast ?p = Num 0"
    by simp
  show "adjustedPixel (factor (Num 0)) ?p (pixelAt [255, 255, 0, 255] 0) =
     (Num (- 178500000000000019523157581760655634582858647498181027104778160814162655170182745841301190673496798592454426995646462526580220885375463204623482309282314906670531746044251952342519941083319531246690964982498814310841551614776638283377274789542932234971095749099423767025609848671029220245014929029070235631616),
      Num 152999999999999982519729763771079486961775188652636890647788244661438707245061054654625731395041842479967243265370663491198243429879049993006905035494664307331796383155105896522062698909948000767945602367347774849520928620484135785795199160393306677594848897261606243042735752419350046341010020933305746063360,
      Num 0)"
    by (simp add: factor_zero lit_def adjustedPixel_def pixelAt_def dataGet_def contrastRemap_def
        scaleChannels_def eval_defs)
  show 1: "filterPixel (factor (Num 0)) ?p (pixelAt [255, 255, 0, 255] 0) = (NaN, Num 255, Num 255)"
    by (simp add: factor_zero lit_def filterPixel_def pixelAt_def dataGet_def contrastRemap_def
        scaleChannels_def adjustSaturation_def clamp_def lit_values_normal eval_defs)
  show "applyFilters [255, 255, 0, 255] ?p = [0, 255, 255, 255]"
    unfolding applyFilters_pixel contrast_eq 1 by (simp add: round_values)
qed

text \<open>
  Claim C5, amended: for every pixel of the buffer and every preset of saturation 0, each
  colour byte of the pixel is, when the difference of that channel's brightness and warmth
  adjusted value and the luminance of the adjusted values is finite, the luminance
  clamped to \<open>[0, 255]\<close> and rounded to the nearest integer (a tie to the even one), and 0
  otherwise; so the three bytes are equal, \<open>R_out == G_out == B_out\<close>, whenever the three
  differences are finite; and when the luminance itself is not finite the byte is 0. For
  the pixel (0, 44, 14) the luminance is the double next below 27.5 and the bytes are 27.
\<close>

theorem C5_grayscale_rounded:
  assumes "saturation preset = Num 0" and "4 * k + 2 < length data" and "c < 3"
  shows "applyFilters data preset ! (4 * k + c) =
       (if isFinite (channel c (adjustedPixel (factor (contrast preset)) preset (pixelAt data (4 * k)))
              - luminance (adjustedPixel (factor (contrast preset)) preset (pixelAt data (4 * k))))
        then ToUint8Clamp (clamp
               (luminance (adjustedPixel (factor (contrast preset)) preset (pixelAt data (4 * k)))))
        else 0) \<and>
     (isFinite (channel 0 (adjustedPixel (factor (contrast preset)) preset (pixelAt data (4 * k)))
              - luminance (adjustedPixel (factor (contrast preset)) preset (pixelAt data (4 * k)))) \<and>
      isFinite (channel 1 (adjustedPixel (factor (contrast preset)) preset (pixelAt data (4 * k)))
              - luminance (adjustedPixel (factor (contrast preset)) preset (pixelAt data (4 * k)))) \<and>
      isFinite (channel 2 (adjustedPixel (factor (contrast preset)) preset (pixelAt data (4 * k)))
              - luminance (adjustedPixel (factor (contrast preset)) preset (pixelAt data (4 * k)))) \<longrightarrow>
      applyFilters data preset ! (4 * k) = applyFilters data preset ! (4 * k + 1) \<and>
      applyFilters data preset ! (4 * k + 1) = applyFilters data preset ! (4 * k + 2)) \<and>
     (case luminance (adjustedPixel (factor (contrast preset)) preset (pixelAt data (4 * k))) of
        Num x \<Rightarrow> nearestTiesToEven (min 255 (max 0 x))
          (unat (ToUint8Clamp (clamp
             (luminance (adjustedPixel (factor (contrast preset)) preset (pixelAt data (4 * k)))))))
      | _ \<Rightarrow> applyFilters data preset ! (4 * k + c) = 0)"
proof -
  let ?adj = "adjustedPixel (factor (contrast preset)) preset (pixelAt data (4 * k))"
  let ?gray = "luminance ?adj"
  have byte: "applyFilters data preset ! (4 * k + d) =
      (if isFinite (channel d ?adj - ?gray) then ToUint8Clamp (clamp ?gray) else 0)"
    if d: "d < 3" for d
  proof -
    from assms(2) d have "applyFilters data preset ! (4 * k + d) =
        ToUint8Clamp (channel d (filterPixel (factor (contrast preset)) preset (pixelAt data (4 * k))))"
      by (simp add: applyFilters_nth)
    also have "\<dots> = ToUint8Clamp (clamp (if isFinite (channel d ?adj - ?gray) then ?gray else NaN))"
      using assms(1) d by (simp only: filterPixel_zero_saturation)
    also have "\<dots> = (if isFinite (channel d ?adj - ?gray) then ToUint8Clamp (clamp ?gray) else 0)"
      by (simp add: clamp_simps)
    finally show ?thesis .
  qed
  from assms(3) have 1: "applyFilters data preset ! (4 * k + c) =
      (if isFinite (channel c ?adj - ?gray) then ToUint8Clamp (clamp ?gray) else 0)"
    by (rule byte)
  have 2: "isFinite (channel 0 ?adj - ?gray) \<and> isFinite (channel 1 ?adj - ?gray) \<and>
      isFinite (channel 2 ?adj - ?gray) \<longrightarrow>
      applyFilters data preset ! (4 * k) = applyFilters data preset ! (4 * k + 1) \<and>
      applyFilters data preset ! (4 * k + 1) = applyFilters data preset ! (4 * k + 2)"
    using byte [of 0] byte [of 1] byte [of 2] by simp
  have 3: "case ?gray of
        Num x \<Rightarrow> nearestTiesToEven (min 255 (max 0 x)) (unat (ToUint8Clamp (clamp ?gray)))
      | _ \<Rightarrow> applyFilters data preset ! (4 * k + c) = 0"
  proof (cases ?gray)
    case (Num x)
    have "clamp (Num x) = Num (min 255 (max 0 x))"
      by (rule clamp_simps)
    from ToUint8Clamp_clamp_Num(4) [OF this] Num show ?thesis
      by simp
  next
    case PInf
    then have "\<not> isFinite (channel c ?adj - ?gray)"
      by (cases "channel c ?adj") simp_all
    with 1 PInf show ?thesis
      by simp
  next
    case NInf
    then have "\<not> isFinite (channel c ?adj - ?gray)"
      by (cases "channel c ?adj") simp_all
    with 1 NInf show ?thesis
      by simp
  next
    case NaN
    then have "\<not> isFinite (channel c ?adj - ?gray)"
      by (cases "channel c ?adj") simp_all
    with 1 NaN show ?thesis
      by simp
  qed
  from 1 2 3 show ?thesis
    by (intro conjI)
qed

theorem C5_grayscale_rounded_witness:
  "luminance (adjustedPixel (factor (Num 0))
      \<lparr>name = ''Gray'', description = [], brightness = Num 1, contrast = Num 0,
       warmth = Num 0, saturation = Num 0\<rparr> (pixelAt [0, 44, 14, 255] 0)) =
     Num (7740561859543039 / 281474976710656) \<and>
   applyFilters [0, 44, 14, 255]
      \<lparr>name = ''Gray'', description = [], brightness = Num 1, contrast = Num 0,
       warmth = Num 0, saturation = Num 0\<rparr> ! 0 = 27 \<and>
   applyFilters [0, 44, 14, 255]
      \<lparr>name = ''Gray'', description = [], brightness = Num 1, contrast = Num 0,
       warmth = Num 0, saturation = Num 0\<rparr> ! 0 =
   applyFilters [0, 44, 14, 255]
      \<lparr>name = ''Gray'', description = [], brightness = Num 1, contrast = Num 0,
       warmth = Num 0, saturation = Num 0\<rparr> ! 1 \<and>
   applyFilters [0, 44, 14, 255]
      \<lparr>name = ''Gray'', description = [], brightness = Num 1, contrast = Num 0,
       warmth = Num 0, saturation = Num 0\<rparr> ! 1 =
   applyFilters [0, 44, 14, 255]
      \<lparr>name = ''Gray'', description = [], brightness = Num 1, contrast = Num 0,
       warmth = Num 0, saturation = Num 0\<rparr> ! 2 \<and>
   nearestTiesToEven (7740561859543039 / 281474976710656) 27"
proof -
  let ?p = "\<lparr>name = ''Gray'', description = [], brightness = Num 1, contrast = Num 0,
       warmth = Num 0, saturation = Num 0\<rparr>"
  let ?d = "[0, 44, 14, 255 :: u8]"
  let ?g = "7740561859543039 / 281474976710656 :: real"
  have "saturation ?p = Num 0" and "4 * 0 + 2 < length ?d" and "(0::nat) < 3"
    by simp_all
  note C5 = C5_grayscale_rounded [OF this]
  have adj: "adjustedPixel (factor (contrast ?p)) ?p (pixelAt ?d (4 * 0)) = (Num 0, Num 44, Num 14)"
    by (simp add: Gray_adjusted)
  have lum: "luminance (Num 0, Num 44, Num 14) = Num ?g"
    by (rule Gray_luminance)
  have st: "ToUint8Clamp (clamp (Num ?g)) = 27"
    by (simp add: clamp_simps round_values)
  from C5 have "applyFilters ?d ?p ! (4 * 0 + 0) =
       (if isFinite (channel 0 (adjustedPixel (factor (contrast ?p)) ?p (pixelAt ?d (4 * 0)))
              - luminance (adjustedPixel (factor (contrast ?p)) ?p (pixelAt ?d (4 * 0))))
        then ToUint8Clamp (clamp
               (luminance (adjustedPixel (factor (contrast ?p)) ?p (pixelAt ?d (4 * 0)))))
        else 0)"
    by (rule conjunct1)
  then have "applyFilters ?d ?p ! (4 * 0 + 0) = 27"
    unfolding adj lum by (simp only: Gray_finite if_True st)
  then have byte: "applyFilters ?d ?p ! 0 = 27"
    by (simp only: mult_zero_right add_0)
  from C5 have "isFinite (channel 0 (adjustedPixel (factor (contrast ?p)) ?p (pixelAt ?d (4 * 0)))
              - luminance (adjustedPixel (factor (contrast ?p)) ?p (pixelAt ?d (4 * 0)))) \<and>
      isFinite (channel 1 (adjustedPixel (factor (contrast ?p)) ?p (pixelAt ?d (4 * 0)))
              - luminance (adjustedPixel (factor (contrast ?p)) ?p (pixelAt ?d (4 * 0)))) \<and>
      isFinite (channel 2 (adjustedPixel (factor (contrast ?p)) ?p (pixelAt ?d (4 * 0)))
              - luminance (adjustedPixel (factor (contrast ?p)) ?p (pixelAt ?d (4 * 0)))) \<longrightarrow>
      applyFilters ?d ?p ! (4 * 0) = applyFilters ?d ?p ! (4 * 0 + 1) \<and>
      applyFilters ?d ?p ! (4 * 0 + 1) = applyFilters ?d ?p ! (4 * 0 + 2)"
    by (rule conjunct2 [THEN conjunct1])
  then have "applyFilters ?d ?p ! (4 * 0) = applyFilters ?d ?p ! (4 * 0 + 1) \<and>
      applyFilters ?d ?p ! (4 * 0 + 1) = applyFilters ?d ?p ! (4 * 0 + 2)"
    unfolding adj lum using Gray_finite by blast
  then have eqs: "applyFilters ?d ?p ! 0 = applyFilters ?d ?p ! 1 \<and>
      applyFilters ?d ?p ! 1 = applyFilters ?d ?p ! 2"
    by (simp only: mult_zero_right add_0)
  from C5 have "case luminance (adjustedPixel (factor (contrast ?p)) ?p (pixelAt ?d (4 * 0))) of
        Num x \<Rightarrow> nearestTiesToEven (min 255 (max 0 x))
          (unat (ToUint8Clamp (clamp
             (luminance (adjustedPixel (factor (contrast ?p)) ?p (pixelAt ?d (4 * 0)))))))
      | _ \<Rightarrow> applyFilters ?d ?p ! (4 * 0 + 0) = 0"
    by (rule conjunct2 [THEN conjunct2])
  then have "nearestTiesToEven (min 255 (max 0 ?g)) (unat (ToUint8Clamp (clamp (Num ?g))))"
    unfolding adj lum jsnum.case .
  then have near: "nearestTiesToEven ?g 27"
    by (simp add: st)
  have "luminance (adjustedPixel (factor (Num 0)) ?p (pixelAt ?d 0)) = Num ?g"
    by (simp add: Gray_adjusted lum)
  with byte eqs near show ?thesis
    by (intro conjI) simp_all
qed

section \<open>Claim C6: the brightness and warmth step\<close>


section \<open>Claim C7: the neutral preset on gray pixels\<close>

text \<open>
  Claim C7: for a preset of brightness 1, warmth 0 and saturation 1 whose contrast gives
  the factor 1, and a pixel of the buffer with equal red, green and blue, applying the
  transform twice gives at that pixel what applying it once gives; both are the pixel
  itself.
\<close>

theorem C7_idempotent_on_gray:
  assumes "brightness preset = Num 1" and "warmth preset = Num 0"
    and "saturation preset = Num 1" and "factor (contrast preset) = Num 1"
    and "4 * k + 2 < length data"
    and "data ! (4 * k) = data ! (4 * k + 1)" and "data ! (4 * k + 1) = data ! (4 * k + 2)"
    and "c < 4" and "4 * k + c < length data"
  shows "applyFilters (applyFilters data preset) preset ! (4 * k + c) =
       applyFilters data preset ! (4 * k + c) \<and>
     applyFilters data preset ! (4 * k + c) = data ! (4 * k + c)"
proof -
  let ?once = "applyFilters data preset"
  note fixed = gray_pixel_fixed [OF assms(1-4)]
  have len: "length ?once = length data"
    by (rule length_applyFilters)
  have r: "?once ! (4 * k) = data ! (4 * k)"
    using fixed [OF assms(5-7), of 0] assms(5) by simp
  have g: "?once ! (4 * k + 1) = data ! (4 * k + 1)"
    using fixed [OF assms(5-7), of 1] assms(5) by simp
  have b: "?once ! (4 * k + 2) = data ! (4 * k + 2)"
    using fixed [OF assms(5-7), of 2] assms(5) by simp
  have "applyFilters ?once preset ! (4 * k + c) = ?once ! (4 * k + c)"
  proof (rule fixed)
    show "4 * k + 2 < length ?once"
      using assms(5) by (simp only: len)
    show "?once ! (4 * k) = ?once ! (4 * k + 1)"
      using assms(6) by (simp only: r g)
    show "?once ! (4 * k + 1) = ?once ! (4 * k + 2)"
      using assms(7) by (simp only: g b)
    show "c < 4"
      by (rule assms(8))
    show "4 * k + c < length ?once"
      using assms(9) by (simp only: len)
  qed
  moreover have "?once ! (4 * k + c) = data ! (4 * k + c)"
    using assms(5-9) by (rule fixed)
  ultimately show ?thesis
    by simp
qed

theorem C7_idempotent_on_gray_witness:
  "applyFilters (applyFilters [77, 77, 77, 200]
      \<lparr>name = ''Neutral'', description = [], brightness = Num 1, contrast = Num 0,
       warmth = Num 0, saturation = Num 1\<rparr>)
      \<lparr>name = ''Neutral'', description = [], brightness = Num 1, contrast = Num 0,
       warmth = Num 0, saturation = Num 1\<rparr> ! 1 =
   applyFilters [77, 77, 77, 200]
      \<lparr>name = ''Neutral'', description = [], brightness = Num 1, contrast = Num 0,
       warmth = Num 0, saturation = Num 1\<rparr> ! 1 \<and>
   applyFilters [77, 77, 77, 200]
      \<lparr>name = ''Neutral'', description = [], brightness = Num 1, contrast = Num 0,
       warmth = Num 0, saturation = Num 1\<rparr> ! 1 = 77"
proof -
  let ?p = "\<lparr>name = ''Neutral'', description = [], brightness = Num 1, contrast = Num 0,
       warmth = Num 0, saturation = Num 1\<rparr>"
  let ?d = "[77, 77, 77, 200 :: u8]"
  have "brightness ?p = Num 1" and "warmth ?p = Num 0" and "saturation ?p = Num 1"
    and "factor (contrast ?p) = Num 1"
    and "4 * 0 + 2 < length ?d"
    and "?d ! (4 * 0) = ?d ! (4 * 0 + 1)" and "?d ! (4 * 0 + 1) = ?d ! (4 * 0 + 2)"
    and "(1::nat) < 4" and "4 * 0 + 1 < length ?d"
    by (simp_all add: factor_zero)
  from C7_idempotent_on_gray [OF this] show ?thesis
    by simp
qed

section \<open>Claims C8 and C9: the preset catalog\<close>

text \<open>
  Claim C8: the catalog is a fixed, ordered list of exactly four presets, and their names,
  descriptions, brightness, contrast, warmth and saturation are, in order, those of
  Auto Enhance (1.05, 1.10, 0.02, 1.08), Golden Hour (1.08, 1.05, 0.08, 1.12),
  Cool Studio (1.02, 1.12, -0.06, 1.04) and Vintage Film (1.03, 0.92, 0.03, 0.90), each
  literal denoting the double nearest to it.
\<close>

theorem C8_catalog:
  "length filterPresets = 4 \<and>
   map name filterPresets = [''Auto Enhance'', ''Golden Hour'', ''Cool Studio'', ''Vintage Film''] \<and>
   map description filterPresets =
     [''Balanced boost for clarity and detail.'',
      ''Warm cinematic tones with soft highlights.'',
      ''Clean, modern tones with crisp shadows.'',
      ''Muted palette with gentle contrast.''] \<and>
   map brightness filterPresets = [lit 1.05, lit 1.08, lit 1.02, lit 1.03] \<and>
   map contrast filterPresets = [lit 1.10, lit 1.05, lit 1.12, lit 0.92] \<and>
   map warmth filterPresets = [lit 0.02, lit 0.08, - lit 0.06, lit 0.03] \<and>
   map saturation filterPresets = [lit 1.08, lit 1.12, lit 1.04, lit 0.90]"
  by (simp add: filterPresets_def)

text \<open>
  Claim C9: selection by name returns the first preset of the catalog whose name is the
  requested one, and when no preset of the catalog has that name it returns the first
  preset of the catalog, Auto Enhance.
\<close>

theorem C9_selection:
  "(\<forall>i<length filterPresets.
      name (filterPresets ! i) = presetName \<and>
      (\<forall>j<i. name (filterPresets ! j) \<noteq> presetName) \<longrightarrow>
      currentPreset presetName = filterPresets ! i) \<and>
   ((\<forall>preset\<in>set filterPresets. name preset \<noteq> presetName) \<longrightarrow>
      currentPreset presetName = filterPresets ! 0 \<and>
      name (currentPreset presetName) = ''Auto Enhance'')"
proof (intro conjI allI impI)
  fix i
  assume "i < length filterPresets"
    and "name (filterPresets ! i) = presetName \<and>
      (\<forall>j<i. name (filterPresets ! j) \<noteq> presetName)"
  then have "find (\<lambda>preset. name preset = presetName) filterPresets = Some (filterPresets ! i)"
    unfolding find_Some_iff by blast
  then show "currentPreset presetName = filterPresets ! i"
    by (simp add: currentPreset_def)
next
  assume none: "\<forall>preset\<in>set filterPresets. name preset \<noteq> presetName"
  then have "find (\<lambda>preset. name preset = presetName) filterPresets = None"
    unfolding find_None_iff by blast
  then show "currentPreset presetName = filterPresets ! 0"
    by (simp add: currentPreset_def)
  then show "name (currentPreset presetName) = ''Auto Enhance''"
    by (simp add: filterPresets_def)
qed

theorem C9_selection_witness:
  "currentPreset ''Cool Studio'' = filterPresets ! 2 \<and>
   currentPreset ''Sepia'' = filterPresets ! 0 \<and>
   name (currentPreset ''Sepia'') = ''Auto Enhance''"
proof -
  have "2 < length filterPresets"
    by (simp add: filterPresets_def)
  moreover have "name (filterPresets ! 2) = ''Cool Studio'' \<and>
      (\<forall>j<2. name (filterPresets ! j) \<noteq> ''Cool Studio'')"
    by (auto simp: filterPresets_def less_Suc_eq numeral_2_eq_2)
  ultimately have "currentPreset ''Cool Studio'' = filterPresets ! 2"
    using C9_selection [of "''Cool Studio''"] by blast
  moreover have "\<forall>preset\<in>set filterPresets. name preset \<noteq> ''Sepia''"
    by (simp add: filterPresets_def)
  then have "currentPreset ''Sepia'' = filterPresets ! 0 \<and>
      name (currentPreset ''Sepia'') = ''Auto Enhance''"
    using C9_selection [of "''Sepia''"] by blast
  ultimately show ?thesis
    by blast
qed

section \<open>Claim C10: rounding on store\<close>

text \<open>
  Claim C10: every colour byte of the output is an integer obtained on store: the clamped
  value of the saturation blend lies in \<open>[0, 255]\<close> and the byte is the integer nearest
  to it, a tie going to the even neighbour; a blend that is not-a-number is stored as 0,
  and the clamped blend is never infinite. For the pixel (0, 130, 172) under brightness
  0.5 and contrast 1 the green blend is the double \<open>193.49999999999977\<close> and the byte is
  193; the blends 2.5 and 7.5 are stored as 2 and 8.
\<close>

theorem C10_rounded_on_store:
  assumes "c < 3" and "4 * k + c < length data"
  shows "case channel c (filterPixel (factor (contrast preset)) preset (pixelAt data (4 * k))) of
           Num x \<Rightarrow> 0 \<le> x \<and> x \<le> 255 \<and>
             nearestTiesToEven x (unat (applyFilters data preset ! (4 * k + c)))
         | NaN \<Rightarrow> applyFilters data preset ! (4 * k + c) = 0
         | _ \<Rightarrow> False"
proof -
  obtain w where w: "channel c (filterPixel (factor (contrast preset)) preset (pixelAt data (4 * k))) = clamp w"
    using filterPixel_clamped by blast
  from assms have out: "applyFilters data preset ! (4 * k + c) = ToUint8Clamp (clamp w)"
    by (simp add: applyFilters_nth w)
  show ?thesis
  proof (cases "clamp w")
    case (Num x)
    then show ?thesis
      using ToUint8Clamp_clamp_Num [OF Num] by (simp add: w out)
  next
    case NaN
    then show ?thesis
      by (simp add: w out)
  qed (simp_all add: clamp_not_inf)
qed

theorem C10_rounded_on_store_witness:
  "channel 1 (filterPixel (factor (Num 1))
      \<lparr>name = ''Half'', description = [], brightness = Num (1 / 2), contrast = Num 1,
       warmth = Num 0, saturation = Num 1\<rparr> (pixelAt [0, 130, 172, 255] 0)) =
     Num (851021999898623 / 4398046511104) \<and>
   nearestTiesToEven (851021999898623 / 4398046511104)
     (unat (applyFilters [0, 130, 172, 255]
        \<lparr>name = ''Half'', description = [], brightness = Num (1 / 2), contrast = Num 1,
         warmth = Num 0, saturation = Num 1\<rparr> ! 1)) \<and>
   applyFilters [0, 130, 172, 255]
        \<lparr>name = ''Half'', description = [], brightness = Num (1 / 2), contrast = Num 1,
         warmth = Num 0, saturation = Num 1\<rparr> ! 1 = 193 \<and>
   nearestTiesToEven (5 / 2)
     (unat (applyFilters [1, 1, 1, 255, 3, 3, 3, 9]
        \<lparr>name = ''Bright'', description = [], brightness = Num (5 / 2), contrast = Num 0,
         warmth = Num 0, saturation = Num 1\<rparr> ! 0)) \<and>
   applyFilters [1, 1, 1, 255, 3, 3, 3, 9]
        \<lparr>name = ''Bright'', description = [], brightness = Num (5 / 2), contrast = Num 0,
         warmth = Num 0, saturation = Num 1\<rparr> ! 0 = 2 \<and>
   nearestTiesToEven (15 / 2)
     (unat (applyFilters [1, 1, 1, 255, 3, 3, 3, 9]
        \<lparr>name = ''Bright'', description = [], brightness = Num (5 / 2), contrast = Num 0,
         warmth = Num 0, saturation = Num 1\<rparr> ! 6)) \<and>
   applyFilters [1, 1, 1, 255, 3, 3, 3, 9]
        \<lparr>name = ''Bright'', description = [], brightness = Num (5 / 2), contrast = Num 0,
         warmth = Num 0, saturation = Num 1\<rparr> ! 6 = 8"
proof -
  let ?q = "\<lparr>name = ''Half'', description = [], brightness = Num (1 / 2), contrast = Num 1,
         warmth = Num 0, saturation = Num 1\<rparr>"
  let ?e = "[0, 130, 172, 255 :: u8]"
  let ?p = "\<lparr>name = ''Bright'', description = [], brightness = Num (5 / 2), contrast = Num 0,
         warmth = Num 0, saturation = Num 1\<rparr>"
  let ?d = "[1, 1, 1, 255, 3, 3, 3, 9 :: u8]"
  have q: "channel 1 (filterPixel (factor (contrast ?q)) ?q (pixelAt ?e (4 * 0))) =
      Num (851021999898623 / 4398046511104)"
    by (simp add: half_brightness_tie)
  have a: "channel 0 (filterPixel (factor (contrast ?p)) ?p (pixelAt ?d (4 * 0))) = Num (5 / 2)"
    by (simp add: exact_ties)
  have b: "channel 2 (filterPixel (factor (contrast ?p)) ?p (pixelAt ?d (4 * 1))) = Num (15 / 2)"
    by (simp add: exact_ties)
  have "(1::nat) < 3" and "4 * 0 + 1 < length ?e"
    by simp_all
  from C10_rounded_on_store [OF this, of ?q]
  have "0 \<le> (851021999898623 / 4398046511104 :: real) \<and>
      (851021999898623 / 4398046511104 :: real) \<le> 255 \<and>
      nearestTiesToEven (851021999898623 / 4398046511104) (unat (applyFilters ?e ?q ! (4 * 0 + 1)))"
    unfolding q jsnum.case .
  then have 1: "nearestTiesToEven (851021999898623 / 4398046511104) (unat (applyFilters ?e ?q ! 1))"
    by (simp only: mult_zero_right add_0)
  have "(0::nat) < 3" and "4 * 0 + 0 < length ?d"
    by simp_all
  from C10_rounded_on_store [OF this, of ?p]
  have "0 \<le> (5 / 2 :: real) \<and> (5 / 2 :: real) \<le> 255 \<and>
      nearestTiesToEven (5 / 2) (unat (applyFilters ?d ?p ! (4 * 0 + 0)))"
    unfolding a jsnum.case .
  then have 2: "nearestTiesToEven (5 / 2) (unat (applyFilters ?d ?p ! 0))"
    by (simp only: mult_zero_right add_0)
  have "(2::nat) < 3" and "4 * 1 + 2 < length ?d"
    by simp_all
  from C10_rounded_on_store [OF this, of ?p]
  have "0 \<le> (15 / 2 :: real) \<and> (15 / 2 :: real) \<le> 255 \<and>
      nearestTiesToEven (15 / 2) (unat (applyFilters ?d ?p ! (4 * 1 + 2)))"
    unfolding b jsnum.case .
  then have 3: "nearestTiesToEven (15 / 2) (unat (applyFilters ?d ?p ! 6))"
    by simp
  have "applyFilters ?e ?q ! (4 * 0 + 1) =
      ToUint8Clamp (channel 1 (filterPixel (factor (contrast ?q)) ?q (pixelAt ?e (4 * 0))))"
    by (subst applyFilters_nth) simp_all
  then have 4: "applyFilters ?e ?q ! 1 = 193"
    unfolding q by (simp add: round_values)
  have "applyFilters ?d ?p ! (4 * 0 + 0) =
      ToUint8Clamp (channel 0 (filterPixel (factor (contrast ?p)) ?p (pixelAt ?d (4 * 0))))"
    by (subst applyFilters_nth) simp_all
  then have 5: "applyFilters ?d ?p ! 0 = 2"
    unfolding a by (simp add: round_values)
  have "applyFilters ?d ?p ! (4 * 1 + 2) =
      ToUint8Clamp (channel 2 (filterPixel (factor (contrast ?p)) ?p (pixelAt ?d (4 * 1))))"
    by (subst applyFilters_nth) simp_all
  then have 6: "applyFilters ?d ?p ! 6 = 8"
    unfolding b by (simp add: round_values)
  have "channel 1 (filterPixel (factor (Num 1)) ?q (pixelAt ?e 0)) =
      Num (851021999898623 / 4398046511104)"
    by (simp add: half_brightness_tie)
  with 1 2 3 4 5 6 show ?thesis
    by (intro conjI)
qed

end
